theory Spec2Isabelle
  imports
    Complex_Main
    "HOL-Library.Multiset"
    "HOL-Library.Char_ord"
    "HOL-Library.List_Lexorder"
    "HOL-Library.Product_Lexorder"
begin

section \<open>Network analyzer: address validation, feature extraction, aggregation, detection\<close>

text \<open>
  A shallow embedding of \<^verbatim>\<open>backend/network_analysis.py\<close> (class \<^verbatim>\<open>NetworkAnalyzer\<close>).
  Scapy packets are records of optional layers, pandas data frames are lists of rows
  together with their column labels, Python exceptions are values of \<open>py_error\<close>.
  A timestamp is a finite float64 in the source and here the real number it denotes;
  the arithmetic of flood detection is float64 arithmetic, with its rounding. The
  percentages of the aggregation tables are real numbers, computed exactly.
\<close>

subsection \<open>The regular expression of \<^verbatim>\<open>is_valid_ip\<close>\<close>

text \<open>
  The fragment of Python's \<^verbatim>\<open>re\<close> syntax that the pattern uses: a literal character, a
  character range \<^verbatim>\<open>[a-b]\<close>, concatenation, alternation \<^verbatim>\<open>|\<close> and the optional \<^verbatim>\<open>?\<close>.
  \<open>rmatch r s\<close> lists, in backtracking order, what is left of \<open>s\<close> after each way of
  matching \<open>r\<close> at its start.
\<close>

datatype regex =
    Lit char
  | Range char char
  | Seq regex regex
  | Alt regex regex
  | Opt regex

fun rmatch :: "regex \<Rightarrow> string \<Rightarrow> string list" where
  "rmatch (Lit c) s = (case s of [] \<Rightarrow> [] | x # xs \<Rightarrow> if x = c then [xs] else [])"
| "rmatch (Range a b) s =
     (case s of [] \<Rightarrow> [] | x # xs \<Rightarrow> if a \<le> x \<and> x \<le> b then [xs] else [])"
| "rmatch (Seq r1 r2) s = concat (map (rmatch r2) (rmatch r1 s))"
| "rmatch (Alt r1 r2) s = rmatch r1 s @ rmatch r2 s"
| "rmatch (Opt r) s = rmatch r s @ [s]"

text \<open>
  \<^verbatim>\<open>re.match(r'^...$', s)\<close>: the match starts at the beginning of \<open>s\<close>, and \<^verbatim>\<open>$\<close>
  (without \<^verbatim>\<open>re.MULTILINE\<close>) holds at the end of the string and also just before a
  newline that is the last character of the string.
\<close>

definition re_match :: "regex \<Rightarrow> string \<Rightarrow> bool" where
  "re_match r s = list_ex (\<lambda>rest. rest = [] \<or> rest = [CHR 0x0A]) (rmatch r s)"

text \<open>\<^verbatim>\<open>(25[0-5]|2[0-4][0-9]|[01]?[0-9][0-9]?)\<close>\<close>

definition octet_pattern :: regex where
  "octet_pattern =
     Alt (Seq (Lit CHR ''2'') (Seq (Lit CHR ''5'') (Range CHR ''0'' CHR ''5'')))
    (Alt (Seq (Lit CHR ''2'') (Seq (Range CHR ''0'' CHR ''4'') (Range CHR ''0'' CHR ''9'')))
         (Seq (Opt (Range CHR ''0'' CHR ''1''))
              (Seq (Range CHR ''0'' CHR ''9'') (Opt (Range CHR ''0'' CHR ''9'')))))"

text \<open>
  \<^verbatim>\<open>^((25[0-5]|2[0-4][0-9]|[01]?[0-9][0-9]?)\.){3}(25[0-5]|2[0-4][0-9]|[01]?[0-9][0-9]?)$\<close>,
  the repetition \<^verbatim>\<open>{3}\<close> written out.
\<close>

definition octet_dot :: regex where
  "octet_dot = Seq octet_pattern (Lit CHR ''.'')"

definition pattern :: regex where
  "pattern = Seq octet_dot (Seq octet_dot (Seq octet_dot octet_pattern))"

text \<open>\<^verbatim>\<open>str.startswith\<close>\<close>

definition startswith :: "string \<Rightarrow> string \<Rightarrow> bool" where
  "startswith s p = (take (length p) s = p)"

text \<open>
  \<^verbatim>\<open>return re.match(pattern, ip) and not ip.startswith('0.')\<close>; every caller uses the
  result as a truth value. The \<^verbatim>\<open>except Exception: return False\<close> branch is for
  arguments that are not strings, which the type \<open>string\<close> excludes.
\<close>

definition is_valid_ip :: "string \<Rightarrow> bool" where
  "is_valid_ip ip = (re_match pattern ip \<and> \<not> startswith ip ''0.'')"

subsection \<open>Dotted quads, as the specification describes them\<close>

text \<open>
  Follows the specification's words, not the code: "four octets, each 0-255", an octet
  being one to three decimal digits. It is compared with \<open>re_match pattern\<close> below.
\<close>

definition is_digit :: "char \<Rightarrow> bool" where
  "is_digit c = (CHR ''0'' \<le> c \<and> c \<le> CHR ''9'')"

definition digit_val :: "char \<Rightarrow> nat" where
  "digit_val c = of_char c - 48"

definition dec_value :: "string \<Rightarrow> nat" where
  "dec_value w = foldl (\<lambda>n c. 10 * n + digit_val c) 0 w"

definition spec_octet :: "string \<Rightarrow> bool" where
  "spec_octet w = (w \<noteq> [] \<and> length w \<le> 3 \<and> list_all is_digit w \<and> dec_value w \<le> 255)"

fun split_on :: "char \<Rightarrow> string \<Rightarrow> string list" where
  "split_on c [] = [[]]"
| "split_on c (x # xs) =
     (if x = c then [] # split_on c xs
      else (case split_on c xs of [] \<Rightarrow> [[x]] | w # ws \<Rightarrow> (x # w) # ws))"

definition spec_dotted_quad :: "string \<Rightarrow> bool" where
  "spec_dotted_quad s =
     (let parts = split_on CHR ''.'' s in length parts = 4 \<and> list_all spec_octet parts)"

text \<open>The words a regular expression matches; used to reason about \<open>rmatch\<close>.\<close>

fun lang :: "regex \<Rightarrow> string set" where
  "lang (Lit c) = {[c]}"
| "lang (Range a b) = {[x] | x. a \<le> x \<and> x \<le> b}"
| "lang (Seq r1 r2) = {u @ v | u v. u \<in> lang r1 \<and> v \<in> lang r2}"
| "lang (Alt r1 r2) = lang r1 \<union> lang r2"
| "lang (Opt r) = insert [] (lang r)"

subsection \<open>Packets, rows and data frames\<close>

text \<open>
  A Scapy packet, as far as the analyzer looks at it: the layers \<^verbatim>\<open>IP\<close>, \<^verbatim>\<open>TCP\<close>,
  \<^verbatim>\<open>DNS\<close> and \<^verbatim>\<open>ARP\<close> (\<open>None\<close> when \<^verbatim>\<open>LAYER in packet\<close> is false), \<^verbatim>\<open>len(packet)\<close>
  and \<^verbatim>\<open>float(packet.time)\<close>. \<open>flags\<close> is \<^verbatim>\<open>str(packet[TCP].flags)\<close>. \<open>qd\<close> is the
  question section of a DNS layer (\<open>None\<close> when it is absent or empty) and holds its
  \<^verbatim>\<open>qname\<close>: bytes that \<^verbatim>\<open>.decode()\<close> turns into text, or bytes on which it raises.
\<close>

datatype qname = Text string | Undecodable

record ip_layer =
  src :: string
  dst :: string
  proto :: nat

record tcp_layer =
  sport :: nat
  dport :: nat
  flags :: string

record dns_layer =
  qd :: "qname option"

record arp_layer =
  hwsrc :: string
  hwdst :: string
  op :: nat

record packet =
  IP :: "ip_layer option"
  TCP :: "tcp_layer option"
  DNS :: "dns_layer option"
  ARP :: "arp_layer option"
  pkt_len :: nat
  pkt_time :: real

text \<open>
  The dictionaries that \<^verbatim>\<open>extract_security_data\<close> and \<^verbatim>\<open>process_packet\<close> build. The
  general row has the fields of the security row and, in addition, \<^verbatim>\<open>size\<close> and
  \<^verbatim>\<open>src_port\<close>.
\<close>

record sec_row =
  src_ip :: string
  dst_ip :: string
  protocol :: nat
  dst_port :: nat
  tcp_flags :: string
  time :: real

record row = sec_row +
  pkt_size :: nat
  src_port :: nat

record dns_row =
  dns_src_ip :: string
  dns_dst_ip :: string
  query :: string

datatype py_error =
    SystemExit int
  | KeyError string
  | IndexError string
  | UnicodeDecodeError

text \<open>
  \<^verbatim>\<open>pd.DataFrame(list_of_dicts)\<close>: the rows in their order, and the column labels, which
  pandas takes from the keys of the dictionaries. An empty list has no dictionary to
  take labels from: the frame has no rows and no columns, and \<^verbatim>\<open>df['label']\<close> raises
  \<^verbatim>\<open>KeyError\<close> on it.
\<close>

record 'r DataFrame =
  columns :: "string list"
  rows :: "'r list"

definition pd_DataFrame :: "string list \<Rightarrow> 'r list \<Rightarrow> 'r DataFrame" where
  "pd_DataFrame keys rs = \<lparr>columns = (if rs = [] then [] else keys), rows = rs\<rparr>"

text \<open>\<^verbatim>\<open>df.empty\<close>: some axis has length zero.\<close>

definition empty_df :: "'r DataFrame \<Rightarrow> bool" where
  "empty_df df = (columns df = [] \<or> rows df = [])"

definition general_keys :: "string list" where
  "general_keys = [''src_ip'', ''dst_ip'', ''protocol'', ''size'', ''time'',
                   ''src_port'', ''dst_port'', ''tcp_flags'']"

definition security_keys :: "string list" where
  "security_keys = [''src_ip'', ''dst_ip'', ''protocol'', ''dst_port'', ''tcp_flags'', ''time'']"

subsection \<open>Feature extraction\<close>

definition process_packet :: "packet \<Rightarrow> row option" where
  "process_packet packet =
     (case IP packet of
        None \<Rightarrow> None
      | Some ip \<Rightarrow>
          if is_valid_ip (src ip) \<and> is_valid_ip (dst ip) then
            Some \<lparr>src_ip = src ip, dst_ip = dst ip, protocol = proto ip,
                  dst_port = (case TCP packet of Some tcp \<Rightarrow> dport tcp | None \<Rightarrow> 0),
                  tcp_flags = (case TCP packet of Some tcp \<Rightarrow> flags tcp | None \<Rightarrow> []),
                  time = pkt_time packet,
                  pkt_size = pkt_len packet,
                  src_port = (case TCP packet of Some tcp \<Rightarrow> sport tcp | None \<Rightarrow> 0)\<rparr>
          else None)"

text \<open>
  The messages of \<^verbatim>\<open>logger.error\<close>, one constructor for each format string:
  \<^item> \<open>PcapFileNotFound f\<close>: \<^verbatim>\<open>PCAP file not found: {f}\<close>
  \<^item> \<open>VerifyFilePath\<close>: \<^verbatim>\<open>Please verify the file path (...) and ensure the file exists.\<close>
  \<^item> \<open>NoPacketsFound f\<close>: \<^verbatim>\<open>No packets found in {f}\<close>
  \<^item> \<open>EnsureValidPcap\<close>: \<^verbatim>\<open>Ensure the file is a valid PCAP file (try opening it in Wireshark).\<close>
  \<^item> \<open>ErrorReadingPcap f e\<close>: \<^verbatim>\<open>Error reading PCAP file {f}: {e}\<close>
  \<^item> \<open>NoValidIPPackets\<close>: \<^verbatim>\<open>No valid IP packets found for analysis.\<close>

  A step of the pipeline gives the error messages it logged and either the exception
  that ended it or its value.
\<close>

datatype log_error =
    PcapFileNotFound string
  | VerifyFilePath
  | NoPacketsFound string
  | EnsureValidPcap
  | ErrorReadingPcap string string
  | NoValidIPPackets

type_synonym 'a outcome = "log_error list \<times> (py_error + 'a)"

text \<open>
  What the file system and \<^verbatim>\<open>PcapReader\<close> give for the path: no such file, a reader that
  raises (with the text of the exception), or the packets of the capture.
\<close>

datatype capture = Missing | Unreadable string | Capture "packet list"

text \<open>
  \<^verbatim>\<open>read_pcap\<close>, with \<^verbatim>\<open>validate_file\<close>. \<^verbatim>\<open>sys.exit(1)\<close> raises \<^verbatim>\<open>SystemExit\<close>, which is
  not an \<^verbatim>\<open>Exception\<close>: the handler around the reading loop does not catch the exit of
  the empty capture.
\<close>

definition read_pcap :: "string \<Rightarrow> capture \<Rightarrow> packet list outcome" where
  "read_pcap pcap_file cap =
     (case cap of
        Missing \<Rightarrow> ([PcapFileNotFound pcap_file, VerifyFilePath], Inl (SystemExit 1))
      | Unreadable e \<Rightarrow> ([ErrorReadingPcap pcap_file e, EnsureValidPcap], Inl (SystemExit 1))
      | Capture packets \<Rightarrow>
          if packets = [] then ([NoPacketsFound pcap_file, EnsureValidPcap], Inl (SystemExit 1))
          else ([], Inr packets))"

text \<open>\<^verbatim>\<open>pool.imap\<close> gives the results in the order of the packets.\<close>

definition extract_packet_data :: "packet list \<Rightarrow> row DataFrame outcome" where
  "extract_packet_data packets =
     (let results = map process_packet packets;
          df = pd_DataFrame general_keys (concat (map (\<lambda>r. case r of None \<Rightarrow> [] | Some x \<Rightarrow> [x]) results))
      in if empty_df df then ([NoValidIPPackets], Inl (SystemExit 1)) else ([], Inr df))"

text \<open>
  The loop of \<^verbatim>\<open>extract_security_data\<close> over the packets that are left, \<open>packet_data\<close>
  being the list it appends to. An empty result is only a warning.
\<close>

fun extract_security_loop :: "packet list \<Rightarrow> sec_row list \<Rightarrow> sec_row list" where
  "extract_security_loop [] packet_data = packet_data"
| "extract_security_loop (packet # packets) packet_data =
     (case IP packet of
        None \<Rightarrow> extract_security_loop packets packet_data
      | Some ip \<Rightarrow>
          if is_valid_ip (src ip) \<and> is_valid_ip (dst ip) then
            extract_security_loop packets
              (packet_data @
               [\<lparr>src_ip = src ip, dst_ip = dst ip, protocol = proto ip,
                 dst_port = (case TCP packet of Some tcp \<Rightarrow> dport tcp | None \<Rightarrow> 0),
                 tcp_flags = (case TCP packet of Some tcp \<Rightarrow> flags tcp | None \<Rightarrow> []),
                 time = pkt_time packet\<rparr>])
          else extract_security_loop packets packet_data)"

definition extract_security_data :: "packet list \<Rightarrow> sec_row DataFrame" where
  "extract_security_data packets = pd_DataFrame security_keys (extract_security_loop packets [])"

text \<open>
  The loop of \<^verbatim>\<open>extract_dns_data\<close>. \<^verbatim>\<open>packet[IP]\<close> on a packet without that layer raises
  \<^verbatim>\<open>IndexError\<close>, and the exception leaves the method.
\<close>

fun extract_dns_loop :: "packet list \<Rightarrow> dns_row list \<Rightarrow> py_error + dns_row list" where
  "extract_dns_loop [] dns_data = Inr dns_data"
| "extract_dns_loop (packet # packets) dns_data =
     (case DNS packet of
        None \<Rightarrow> extract_dns_loop packets dns_data
      | Some dns \<Rightarrow>
          (case qd dns of
             None \<Rightarrow> extract_dns_loop packets dns_data
           | Some name \<Rightarrow>
               (case IP packet of
                  None \<Rightarrow> Inl (IndexError ''Layer [IP] not found'')
                | Some ip \<Rightarrow>
                    if is_valid_ip (src ip) \<and> is_valid_ip (dst ip) then
                      (case name of
                         Undecodable \<Rightarrow> Inl UnicodeDecodeError
                       | Text q \<Rightarrow>
                           extract_dns_loop packets
                             (dns_data @ [\<lparr>dns_src_ip = src ip, dns_dst_ip = dst ip, query = q\<rparr>]))
                    else extract_dns_loop packets dns_data)))"

definition extract_dns_data :: "packet list \<Rightarrow> py_error + dns_row list" where
  "extract_dns_data packets = extract_dns_loop packets []"

subsection \<open>Grouping\<close>

text \<open>
  \<^verbatim>\<open>groupby(keys).size()\<close>: one entry for each key that occurs, in ascending order of
  the keys (pandas sorts the group keys), with the number of rows that have the key.
\<close>

definition groupby_size :: "('r \<Rightarrow> 'k::linorder) \<Rightarrow> 'r list \<Rightarrow> ('k \<times> nat) list" where
  "groupby_size key rs =
     map (\<lambda>k. (k, length (filter (\<lambda>r. key r = k) rs))) (sort (remdups (map key rs)))"

text \<open>
  \<^verbatim>\<open>sort_values(ascending=False)\<close> on counts. This model keeps entries with equal
  counts in the order they had; pandas leaves their order to the sorting algorithm.
\<close>

definition sort_values_desc :: "('k \<times> nat) list \<Rightarrow> ('k \<times> nat) list" where
  "sort_values_desc kcs = sort_key (\<lambda>kc. - int (snd kc)) kcs"

text \<open>
  \<^verbatim>\<open>value_counts()\<close>: the values in the order of their first occurrence, each with the
  number of its occurrences, then sorted by descending count.
\<close>

definition unique :: "'a list \<Rightarrow> 'a list" where
  "unique xs = rev (remdups (rev xs))"

definition value_counts :: "'a list \<Rightarrow> ('a \<times> nat) list" where
  "value_counts xs = sort_values_desc (map (\<lambda>k. (k, length (filter (\<lambda>x. x = k) xs))) (unique xs))"

subsection \<open>Aggregation\<close>

text \<open>\<^verbatim>\<open>f"{number}"\<close> for a number that is not negative.\<close>

fun str_nat :: "nat \<Rightarrow> string" where
  "str_nat n =
     (if n < 10 then [char_of (48 + n)] else str_nat (n div 10) @ [char_of (48 + n mod 10)])"

text \<open>The dictionary of \<^verbatim>\<open>load_protocol_map\<close>, before the optional file is merged in.\<close>

definition protocol_dict :: "nat \<rightharpoonup> string" where
  "protocol_dict =
     map_of [(0, ''HOPOPT''), (1, ''ICMP''), (2, ''IGMP''), (6, ''TCP''), (17, ''UDP''),
             (19, ''CHARGEN''), (37, ''Time''), (89, ''OSPF''), (118, ''STP''), (120, ''SMP''),
             (127, ''Private''), (170, ''EMFAS''), (240, ''Experimental'')]"

text \<open>\<^verbatim>\<open>protocol_name\<close>, the map \<^verbatim>\<open>self.protocol_map\<close> being a parameter.\<close>

definition protocol_name :: "(nat \<rightharpoonup> string) \<Rightarrow> nat \<Rightarrow> string" where
  "protocol_name protocol_map number =
     (case protocol_map number of
        Some name \<Rightarrow> name
      | None \<Rightarrow> ''Unknown('' @ str_nat number @ '')'')"

text \<open>
  The six values \<^verbatim>\<open>analyze_packet_data\<close> returns. Every table is a list of rows, a row
  being its group key followed by the count and, where the table has one, the
  percentage.
\<close>

record analysis =
  total_bandwidth :: nat
  protocol_counts_df :: "(string \<times> nat \<times> real) list"
  ip_communication_table :: "((string \<times> string) \<times> nat \<times> real) list"
  protocol_frequency :: "(string \<times> nat) list"
  ip_communication_protocols :: "((string \<times> string \<times> string) \<times> nat \<times> real) list"
  flow_counts :: "((string \<times> string \<times> nat \<times> nat \<times> string) \<times> nat) list"

text \<open>
  \<^verbatim>\<open>groupby(["Source IP", "Destination IP"])["Count"].transform("sum")\<close> at one row of
  the per-protocol table: the sum of the counts of the rows with the same host pair.
\<close>

definition transform_sum ::
  "((string \<times> string \<times> string) \<times> nat) list \<Rightarrow> string \<times> string \<Rightarrow> nat" where
  "transform_sum tab pair =
     sum_list (map snd (filter (\<lambda>kc. (fst (fst kc), fst (snd (fst kc))) = pair) tab))"

text \<open>
  \<^verbatim>\<open>analyze_packet_data\<close>. The first thing it does is \<^verbatim>\<open>self.df["size"]\<close>. The column
  \<^verbatim>\<open>protocol\<close> is replaced by the protocol names before anything is grouped.
\<close>

definition analyze_packet_data :: "(nat \<rightharpoonup> string) \<Rightarrow> row DataFrame \<Rightarrow> py_error + analysis" where
  "analyze_packet_data protocol_map df =
     (if ''size'' \<notin> set (columns df) then Inl (KeyError ''size'')
      else
        let rs = rows df;
            name = (\<lambda>r. protocol_name protocol_map (protocol r));
            frequency = value_counts (map name rs);
            ip_communication = sort_values_desc (groupby_size (\<lambda>r. (src_ip r, dst_ip r)) rs);
            by_protocol = groupby_size (\<lambda>r. (src_ip r, dst_ip r, name r)) rs
        in Inr \<lparr>
          total_bandwidth = sum_list (map pkt_size rs),
          protocol_counts_df =
            map (\<lambda>(k, c). (k, c, real c / real (length rs) * 100)) frequency,
          ip_communication_table =
            map (\<lambda>(k, c). (k, c, real c / real (sum_list (map snd ip_communication)) * 100))
              ip_communication,
          protocol_frequency = frequency,
          ip_communication_protocols =
            map (\<lambda>((s, d, p), c). ((s, d, p), c, real c / real (transform_sum by_protocol (s, d)) * 100))
              by_protocol,
          flow_counts =
            groupby_size (\<lambda>r. (src_ip r, dst_ip r, src_port r, dst_port r, name r)) rs\<rparr>)"

subsection \<open>Anomaly detection\<close>

text \<open>
  \<^verbatim>\<open>detect_port_scanning\<close>, without its log messages. The result is the frame
  \<^verbatim>\<open>potential_scanners\<close>: rows of a source address and its number of ports.
  \<^verbatim>\<open>str.contains('S')\<close> searches for the one-character pattern \<^verbatim>\<open>S\<close>.
\<close>

definition detect_port_scanning :: "int \<Rightarrow> sec_row DataFrame \<Rightarrow> py_error + (string \<times> nat) list" where
  "detect_port_scanning port_scan_threshold df_security =
     (if ''protocol'' \<notin> set (columns df_security) then Inl (KeyError ''protocol'')
      else if ''tcp_flags'' \<notin> set (columns df_security) then Inl (KeyError ''tcp_flags'')
      else
        let syn_packets =
              filter (\<lambda>r. protocol r = 6 \<and> CHR ''S'' \<in> set (tcp_flags r)) (rows df_security);
            port_scan_df = groupby_size (\<lambda>r. (src_ip r, dst_port r)) syn_packets;
            unique_ports_per_ip = groupby_size (\<lambda>kc. fst (fst kc)) port_scan_df;
            potential_scanners =
              filter (\<lambda>ipn. port_scan_threshold \<le> int (snd ipn)) unique_ports_per_ip
        in Inr potential_scanners)"

text \<open>
  The float64 arithmetic of \<^verbatim>\<open>detect_ddos\<close>. A float64 is a finite number, an infinity or
  NaN; a finite one is the real number it denotes (the two zeros are one). An
  operation gives the exact result rounded to the nearest float64, ties to the even
  significand: 53 bits of significand, least exponent \<open>-1074\<close> for the last bit, and
  overflow to an infinity from \<open>2 ^ 1024\<close> on.
\<close>

datatype float64 = Finite real | PlusInf | MinusInf | NaN

text \<open>The number of binary digits of a natural number.\<close>

fun bit_length :: "nat \<Rightarrow> nat" where
  "bit_length n = (if n = 0 then 0 else Suc (bit_length (n div 2)))"

text \<open>For \<open>x > 0\<close>, the exponent \<open>e\<close> with \<open>2 ^ e \<le> x < 2 ^ (e + 1)\<close>.\<close>

definition floor_log2 :: "real \<Rightarrow> int" where
  "floor_log2 x =
     (if 1 \<le> x then int (bit_length (nat \<lfloor>x\<rfloor>)) - 1
      else - int (bit_length (nat (\<lceil>1 / x\<rceil> - 1))))"

definition pow2 :: "int \<Rightarrow> real" where
  "pow2 e = (if 0 \<le> e then 2 ^ nat e else 1 / 2 ^ nat (- e))"

definition round_half_even :: "real \<Rightarrow> int" where
  "round_half_even y =
     (let f = \<lfloor>y\<rfloor>; d = y - of_int f
      in if d < 1 / 2 then f else if 1 / 2 < d then f + 1 else if even f then f else f + 1)"

definition round64 :: "real \<Rightarrow> float64" where
  "round64 x =
     (if x = 0 then Finite 0
      else
        let q = pow2 (max (floor_log2 \<bar>x\<bar> - 52) (- 1074));
            r = of_int (round_half_even (x / q)) * q
        in if 2 ^ 1024 \<le> \<bar>r\<bar> then (if 0 < x then PlusInf else MinusInf) else Finite r)"

text \<open>\<^verbatim>\<open>a - b\<close> for two finite float64.\<close>

definition float_sub :: "real \<Rightarrow> real \<Rightarrow> float64" where
  "float_sub a b = round64 (a - b)"

text \<open>
  \<^verbatim>\<open>n / t\<close> for a group size \<open>n\<close> (an int64, which is first converted) and a float64
  \<open>t\<close>. Division by zero gives an infinity or NaN and does not raise.
\<close>

definition float_div :: "nat \<Rightarrow> float64 \<Rightarrow> float64" where
  "float_div n t =
     (case round64 (real n) of
        Finite c \<Rightarrow>
          (case t of
             Finite s \<Rightarrow>
               if s = 0 then (if c = 0 then NaN else PlusInf) else round64 (c / s)
           | PlusInf \<Rightarrow> Finite 0
           | MinusInf \<Rightarrow> Finite 0
           | NaN \<Rightarrow> NaN)
      | PlusInf \<Rightarrow>
          (case t of
             Finite s \<Rightarrow> if s < 0 then MinusInf else PlusInf
           | PlusInf \<Rightarrow> NaN
           | MinusInf \<Rightarrow> NaN
           | NaN \<Rightarrow> NaN)
      | MinusInf \<Rightarrow> NaN
      | NaN \<Rightarrow> NaN)"

text \<open>\<^verbatim>\<open>a < b\<close> on float64: false when one of them is NaN.\<close>

fun float_less :: "float64 \<Rightarrow> float64 \<Rightarrow> bool" where
  "float_less (Finite a) (Finite b) = (a < b)"
| "float_less (Finite a) PlusInf = True"
| "float_less MinusInf (Finite b) = True"
| "float_less MinusInf PlusInf = True"
| "float_less _ _ = False"

text \<open>
  \<^verbatim>\<open>detect_ddos\<close>, without its log messages. The result is the list of flagged
  destination addresses; the empty \<^verbatim>\<open>pd.Series()\<close> of the zero time span is the empty
  list. The timestamps are finite float64; the threshold is a number that the
  comparison converts to float64. (A frame with its columns but no row cannot come
  from \<^verbatim>\<open>pd.DataFrame\<close>; on it the maximum and the minimum are NaN, the test for zero
  fails and there is no group.)
\<close>

definition detect_ddos :: "real \<Rightarrow> sec_row DataFrame \<Rightarrow> py_error + string list" where
  "detect_ddos rate_threshold df_security =
     (if ''time'' \<notin> set (columns df_security) then Inl (KeyError ''time'')
      else
        (case map time (rows df_security) of
           [] \<Rightarrow> Inr []
         | t # ts \<Rightarrow>
             let time_span = float_sub (fold max ts t) (fold min ts t) in
             if time_span = Finite 0 then Inr []
             else
               Inr (map fst
                     (filter (\<lambda>ipn. float_less (round64 rate_threshold) (float_div (snd ipn) time_span))
                        (groupby_size dst_ip (rows df_security))))))"

subsection \<open>The pipeline\<close>

text \<open>
  \<^verbatim>\<open>run\<close> up to \<^verbatim>\<open>detect_ddos\<close>: reading, the two extractions, the aggregation and the
  two detectors, an exception of a step ending the run. The value is what these steps
  computed; \<^verbatim>\<open>print_results\<close>, \<^verbatim>\<open>save_results\<close> and \<^verbatim>\<open>generate_visualizations\<close>, which
  write them out, are not part of the model.
\<close>

record results =
  aggregation :: analysis
  scanners :: "(string \<times> nat) list"
  ddos_targets :: "string list"

definition run :: "string \<Rightarrow> (nat \<rightharpoonup> string) \<Rightarrow> int \<Rightarrow> capture \<Rightarrow> results outcome" where
  "run pcap_file protocol_map port_scan_threshold cap =
     (case read_pcap pcap_file cap of
        (log1, Inl e) \<Rightarrow> (log1, Inl e)
      | (log1, Inr packets) \<Rightarrow>
          (case extract_packet_data packets of
             (log2, Inl e) \<Rightarrow> (log1 @ log2, Inl e)
           | (log2, Inr df) \<Rightarrow>
               let df_security = extract_security_data packets in
               (case analyze_packet_data protocol_map df of
                  Inl e \<Rightarrow> (log1 @ log2, Inl e)
                | Inr a \<Rightarrow>
                    (case detect_port_scanning port_scan_threshold df_security of
                       Inl e \<Rightarrow> (log1 @ log2, Inl e)
                     | Inr s \<Rightarrow>
                         (case detect_ddos 1000 df_security of
                            Inl e \<Rightarrow> (log1 @ log2, Inl e)
                          | Inr t \<Rightarrow>
                              (log1 @ log2,
                               Inr \<lparr>aggregation = a, scanners = s, ddos_targets = t\<rparr>))))))"

text \<open>The results of a step as mappings and sets, the order of the rows forgotten.\<close>

definition as_mappings ::
  "analysis \<Rightarrow>
     (string \<rightharpoonup> nat) \<times> (string \<times> string \<rightharpoonup> nat \<times> real) \<times>
     (string \<times> string \<times> string \<rightharpoonup> nat \<times> real) \<times>
     (string \<times> string \<times> nat \<times> nat \<times> string \<rightharpoonup> nat)" where
  "as_mappings a =
     (map_of (protocol_frequency a), map_of (ip_communication_table a),
      map_of (ip_communication_protocols a), map_of (flow_counts a))"

subsection \<open>Example packets\<close>

text \<open>A TCP segment over IP, and an ARP frame, for the concrete instances below.\<close>

definition tcp_packet :: "string \<Rightarrow> string \<Rightarrow> nat \<Rightarrow> string \<Rightarrow> real \<Rightarrow> packet" where
  "tcp_packet s d port fl t =
     \<lparr>IP = Some \<lparr>src = s, dst = d, proto = 6\<rparr>,
      TCP = Some \<lparr>sport = 40000, dport = port, flags = fl\<rparr>,
      DNS = None, ARP = None, pkt_len = 60, pkt_time = t\<rparr>"

definition arp_packet :: packet where
  "arp_packet =
     \<lparr>IP = None, TCP = None, DNS = None,
      ARP = Some \<lparr>hwsrc = ''aa:bb:cc:dd:ee:01'', hwdst = ''ff:ff:ff:ff:ff:ff'', op = 1\<rparr>,
      pkt_len = 42, pkt_time = 0\<rparr>"

text \<open>A DNS query sent over UDP from \<open>s\<close> to \<open>d\<close>.\<close>

definition dns_packet :: "string \<Rightarrow> string \<Rightarrow> string \<Rightarrow> packet" where
  "dns_packet s d name =
     \<lparr>IP = Some \<lparr>src = s, dst = d, proto = 17\<rparr>,
      TCP = None, DNS = Some \<lparr>qd = Some (Text name)\<rparr>, ARP = None,
      pkt_len = 73, pkt_time = 0\<rparr>"

text \<open>Security records for the detectors: a TCP SYN from \<open>a\<close> to a port.\<close>

definition syn_probe :: "string \<Rightarrow> nat \<Rightarrow> sec_row" where
  "syn_probe a port = \<lparr>src_ip = a, dst_ip = ''10.0.0.1'', protocol = 6, dst_port = port,
                       tcp_flags = ''S'', time = 0\<rparr>"

definition scan_rows :: "sec_row list" where
  "scan_rows = [syn_probe ''1.1.1.1'' 80, syn_probe ''1.1.1.1'' 80, syn_probe ''1.1.1.1'' 80,
                syn_probe ''2.2.2.2'' 80, syn_probe ''2.2.2.2'' 443]"

text \<open>Security records for flood detection: a UDP datagram to \<open>b\<close> at time \<open>t\<close>.\<close>

definition flood_record :: "string \<Rightarrow> real \<Rightarrow> sec_row" where
  "flood_record b t = \<lparr>src_ip = ''3.3.3.3'', dst_ip = b, protocol = 17, dst_port = 0,
                        tcp_flags = [], time = t\<rparr>"

definition flood_rows :: "sec_row list" where
  "flood_rows = [flood_record ''10.0.0.9'' 0, flood_record ''10.0.0.9'' 1,
                 flood_record ''10.0.0.7'' 1, flood_record ''10.0.0.9'' 2]"

definition instant_rows :: "sec_row list" where
  "instant_rows = [flood_record ''10.0.0.9'' 5, flood_record ''10.0.0.9'' 5]"

text \<open>A capture with two TCP segments and an ARP frame.\<close>

definition capture_rows :: "packet list" where
  "capture_rows = [tcp_packet ''192.168.1.10'' ''10.0.0.255'' 80 ''S'' 1,
                   tcp_packet ''192.168.1.10'' ''10.0.0.255'' 443 ''SA'' 3, arp_packet]"

text \<open>General-traffic records: a packet of 60 bytes from \<open>s\<close> to \<open>d\<close> with protocol number \<open>n\<close>.\<close>

definition flow_row :: "string \<Rightarrow> string \<Rightarrow> nat \<Rightarrow> row" where
  "flow_row s d n = \<lparr>src_ip = s, dst_ip = d, protocol = n, dst_port = 0, tcp_flags = [],
                     time = 0, pkt_size = 60, src_port = 0\<rparr>"

definition general_rows :: "row list" where
  "general_rows = [flow_row ''1.1.1.1'' ''2.2.2.2'' 6, flow_row ''3.3.3.3'' ''2.2.2.2'' 1,
                   flow_row ''1.1.1.1'' ''2.2.2.2'' 17, flow_row ''1.1.1.1'' ''2.2.2.2'' 6]"

text \<open>The same records in another order.\<close>

definition general_rows_permuted :: "row list" where
  "general_rows_permuted = [flow_row ''1.1.1.1'' ''2.2.2.2'' 17, flow_row ''1.1.1.1'' ''2.2.2.2'' 6,
                            flow_row ''1.1.1.1'' ''2.2.2.2'' 6, flow_row ''3.3.3.3'' ''2.2.2.2'' 1]"

definition flood_rows_permuted :: "sec_row list" where
  "flood_rows_permuted = [flood_record ''10.0.0.9'' 2, flood_record ''10.0.0.7'' 1,
                          flood_record ''10.0.0.9'' 1, flood_record ''10.0.0.9'' 0]"

text \<open>
  Thirteen records for one destination, the first at time 0.0 and the others at the
  float64 nearest to 0.013.
\<close>

definition burst_rows :: "sec_row list" where
  "burst_rows =
     map (flood_record ''10.0.0.9'')
       [0, 7493989779944505 / 576460752303423488, 7493989779944505 / 576460752303423488,
        7493989779944505 / 576460752303423488, 7493989779944505 / 576460752303423488,
        7493989779944505 / 576460752303423488, 7493989779944505 / 576460752303423488,
        7493989779944505 / 576460752303423488, 7493989779944505 / 576460752303423488,
        7493989779944505 / 576460752303423488, 7493989779944505 / 576460752303423488,
        7493989779944505 / 576460752303423488, 7493989779944505 / 576460752303423488]"

section \<open>Address validation\<close>

lemma rmatch_lang: "t \<in> set (rmatch r s) \<longleftrightarrow> (\<exists>w \<in> lang r. s = w @ t)"
proof (induction r arbitrary: s t)
  case (Lit c)
  show ?case by (cases s) auto
next
  case (Range a b)
  show ?case by (cases s) auto
next
  case (Seq r1 r2)
  show ?case
  proof
    assume "t \<in> set (rmatch (Seq r1 r2) s)"
    then obtain m where m: "m \<in> set (rmatch r1 s)" and t: "t \<in> set (rmatch r2 m)" by auto
    from m Seq.IH(1) obtain u where u: "u \<in> lang r1" "s = u @ m" by blast
    from t Seq.IH(2) obtain v where v: "v \<in> lang r2" "m = v @ t" by blast
    from u v have "u @ v \<in> lang (Seq r1 r2)" "s = (u @ v) @ t" by auto
    then show "\<exists>w \<in> lang (Seq r1 r2). s = w @ t" by blast
  next
    assume "\<exists>w \<in> lang (Seq r1 r2). s = w @ t"
    then obtain u v where uv: "u \<in> lang r1" "v \<in> lang r2" "s = (u @ v) @ t" by auto
    then have "v @ t \<in> set (rmatch r1 s)" using Seq.IH(1) by auto
    moreover have "t \<in> set (rmatch r2 (v @ t))" using Seq.IH(2) uv(2) by auto
    ultimately show "t \<in> set (rmatch (Seq r1 r2) s)" by auto
  qed
next
  case (Alt r1 r2)
  then show ?case by auto
next
  case (Opt r)
  then show ?case by auto
qed

lemma char_eq_iff_nat: "c = d \<longleftrightarrow> (of_char c :: nat) = of_char d"
  by auto

lemma char_le_iff_nat: "c \<le> d \<longleftrightarrow> (of_char c :: nat) \<le> of_char d"
  by (simp add: less_eq_char_def)

lemma lang_iff_rmatch: "w \<in> lang r \<longleftrightarrow> [] \<in> set (rmatch r w)"
  by (simp add: rmatch_lang)

lemma spec_octet_cases:
  assumes "spec_octet w"
  obtains a where "w = [a]" | a b where "w = [a, b]" | a b c where "w = [a, b, c]"
proof (cases w)
  case Nil
  with assms show ?thesis by (simp add: spec_octet_def)
next
  case (Cons a w1)
  show ?thesis
  proof (cases w1)
    case Nil
    with Cons that(1) show ?thesis by simp
  next
    case (Cons b w2)
    note c2 = Cons
    show ?thesis
    proof (cases w2)
      case Nil
      with c2 \<open>w = a # w1\<close> that(2) show ?thesis by simp
    next
      case (Cons c w3)
      with c2 \<open>w = a # w1\<close> assms have "w3 = []" by (simp add: spec_octet_def)
      with Cons c2 \<open>w = a # w1\<close> that(3) show ?thesis by simp
    qed
  qed
qed

lemma lang_octet: "w \<in> lang octet_pattern \<longleftrightarrow> spec_octet w"
proof
  assume "w \<in> lang octet_pattern"
  then show "spec_octet w"
    unfolding octet_pattern_def spec_octet_def is_digit_def dec_value_def digit_val_def
    by (auto simp: char_le_iff_nat)
next
  assume a: "spec_octet w"
  then show "w \<in> lang octet_pattern"
  proof (cases w rule: spec_octet_cases)
    case (1 a)
    with \<open>spec_octet w\<close> show ?thesis
      unfolding lang_iff_rmatch octet_pattern_def spec_octet_def is_digit_def by simp
  next
    case (2 a b)
    with \<open>spec_octet w\<close> show ?thesis
      unfolding lang_iff_rmatch octet_pattern_def spec_octet_def is_digit_def by simp
  next
    case (3 a b c)
    with \<open>spec_octet w\<close> show ?thesis
      unfolding lang_iff_rmatch octet_pattern_def spec_octet_def is_digit_def dec_value_def digit_val_def
      by (auto simp: char_le_iff_nat char_eq_iff_nat)
  qed
qed

lemma split_on_not_Nil: "split_on c s \<noteq> []"
  by (induction s) (auto split: list.splits)

lemma split_on_no_sep: "c \<notin> set w \<Longrightarrow> split_on c w = [w]"
  by (induction w) auto

lemma split_on_append: "c \<notin> set w \<Longrightarrow> split_on c (w @ c # rest) = w # split_on c rest"
  by (induction w) auto

lemma split_on_Cons:
  "split_on c s = w # ws \<Longrightarrow>
     c \<notin> set w \<and> (if ws = [] then s = w else \<exists>rest. s = w @ c # rest \<and> split_on c rest = ws)"
proof (induction s arbitrary: w ws)
  case Nil
  then show ?case by simp
next
  case (Cons x xs)
  show ?case
  proof (cases "x = c")
    case True
    with Cons.prems show ?thesis by (auto simp: split_on_not_Nil)
  next
    case False
    then obtain w' where w': "split_on c xs = w' # ws" "w = x # w'"
      using Cons.prems by (auto simp: split_on_not_Nil split: list.splits)
    from Cons.IH[OF w'(1)] False w'(2) show ?thesis by auto
  qed
qed

lemma spec_octet_no_dot: "spec_octet w \<Longrightarrow> CHR ''.'' \<notin> set w"
  by (auto simp: spec_octet_def is_digit_def list_all_iff)

lemma spec_dotted_quad_iff:
  "spec_dotted_quad s \<longleftrightarrow>
     (\<exists>a b c d. s = a @ CHR ''.'' # b @ CHR ''.'' # c @ CHR ''.'' # d \<and>
        spec_octet a \<and> spec_octet b \<and> spec_octet c \<and> spec_octet d)"
proof
  assume "spec_dotted_quad s"
  then obtain a b c d where parts: "split_on CHR ''.'' s = [a, b, c, d]"
    and oct: "spec_octet a" "spec_octet b" "spec_octet c" "spec_octet d"
    unfolding spec_dotted_quad_def Let_def
    by (auto simp: length_Suc_conv numeral_eq_Suc)
  from split_on_Cons[OF parts] obtain r1 where r1: "s = a @ CHR ''.'' # r1" "split_on CHR ''.'' r1 = [b, c, d]"
    by auto
  from split_on_Cons[OF r1(2)] obtain r2 where r2: "r1 = b @ CHR ''.'' # r2" "split_on CHR ''.'' r2 = [c, d]"
    by auto
  from split_on_Cons[OF r2(2)] obtain r3 where r3: "r2 = c @ CHR ''.'' # r3" "split_on CHR ''.'' r3 = [d]"
    by auto
  from split_on_Cons[OF r3(2)] have "r3 = d" by simp
  with r1 r2 r3 oct show "\<exists>a b c d. s = a @ CHR ''.'' # b @ CHR ''.'' # c @ CHR ''.'' # d \<and>
        spec_octet a \<and> spec_octet b \<and> spec_octet c \<and> spec_octet d" by blast
next
  assume "\<exists>a b c d. s = a @ CHR ''.'' # b @ CHR ''.'' # c @ CHR ''.'' # d \<and>
        spec_octet a \<and> spec_octet b \<and> spec_octet c \<and> spec_octet d"
  then obtain a b c d where s: "s = a @ CHR ''.'' # b @ CHR ''.'' # c @ CHR ''.'' # d"
    and oct: "spec_octet a" "spec_octet b" "spec_octet c" "spec_octet d" by blast
  have "split_on CHR ''.'' s = [a, b, c, d]"
    unfolding s using oct
    by (simp add: split_on_append split_on_no_sep spec_octet_no_dot)
  with oct show "spec_dotted_quad s"
    by (simp add: spec_dotted_quad_def)
qed

lemma lang_Seq_dot:
  "w \<in> lang (Seq (Seq r (Lit c)) r') \<longleftrightarrow> (\<exists>a rest. w = a @ c # rest \<and> a \<in> lang r \<and> rest \<in> lang r')"
proof
  assume "w \<in> lang (Seq (Seq r (Lit c)) r')"
  then obtain u v where "w = u @ v" "u \<in> lang (Seq r (Lit c))" "v \<in> lang r'" by auto
  moreover then obtain a where "u = a @ [c]" "a \<in> lang r" by auto
  ultimately have "w = a @ c # v \<and> a \<in> lang r \<and> v \<in> lang r'" by simp
  then show "\<exists>a rest. w = a @ c # rest \<and> a \<in> lang r \<and> rest \<in> lang r'" by blast
next
  assume "\<exists>a rest. w = a @ c # rest \<and> a \<in> lang r \<and> rest \<in> lang r'"
  then obtain a rest where h: "w = a @ c # rest" "a \<in> lang r" "rest \<in> lang r'" by blast
  then have "a @ [c] \<in> lang (Seq r (Lit c))" by simp
  with h(3) have "(a @ [c]) @ rest \<in> lang (Seq (Seq r (Lit c)) r')"
    unfolding lang.simps(3)[of "Seq r (Lit c)" r'] by blast
  with h(1) show "w \<in> lang (Seq (Seq r (Lit c)) r')" by simp
qed

lemma lang_pattern:
  "w \<in> lang pattern \<longleftrightarrow> spec_dotted_quad w"
proof -
  have "w \<in> lang pattern \<longleftrightarrow>
     (\<exists>a b c d. w = a @ CHR ''.'' # b @ CHR ''.'' # c @ CHR ''.'' # d \<and>
        a \<in> lang octet_pattern \<and> b \<in> lang octet_pattern \<and> c \<in> lang octet_pattern \<and> d \<in> lang octet_pattern)"
    unfolding pattern_def octet_dot_def lang_Seq_dot by metis
  then show ?thesis
    by (simp add: lang_octet spec_dotted_quad_iff)
qed

lemma re_match_pattern_iff:
  "re_match pattern s \<longleftrightarrow> spec_dotted_quad s \<or> (\<exists>t. s = t @ [CHR 0x0A] \<and> spec_dotted_quad t)"
proof -
  have "re_match pattern s \<longleftrightarrow> [] \<in> set (rmatch pattern s) \<or> [CHR 0x0A] \<in> set (rmatch pattern s)"
    unfolding re_match_def list_ex_iff by blast
  then show ?thesis
    unfolding rmatch_lang by (auto simp: lang_pattern)
qed


lemma is_valid_ip_iff:
  "is_valid_ip ip \<longleftrightarrow>
     (spec_dotted_quad ip \<or> (\<exists>t. ip = t @ [CHR 0x0A] \<and> spec_dotted_quad t)) \<and> \<not> startswith ip ''0.''"
  by (simp add: is_valid_ip_def re_match_pattern_iff)

lemma is_valid_ip_dotted_quad:
  "spec_dotted_quad ip \<Longrightarrow> is_valid_ip ip \<longleftrightarrow> \<not> startswith ip ''0.''"
  by (simp add: is_valid_ip_iff)

lemma not_valid_leading_zero: "startswith ip ''0.'' \<Longrightarrow> \<not> is_valid_ip ip"
  by (simp add: is_valid_ip_def)

lemma process_packet_accept:
  "IP p = Some h \<Longrightarrow> is_valid_ip (src h) \<Longrightarrow> is_valid_ip (dst h) \<Longrightarrow>
     \<exists>r. process_packet p = Some r \<and> src_ip r = src h \<and> dst_ip r = dst h"
  by (simp add: process_packet_def)

lemma process_packet_drop:
  "IP p = Some h \<Longrightarrow> \<not> is_valid_ip (src h) \<or> \<not> is_valid_ip (dst h) \<Longrightarrow> process_packet p = None"
  by (auto simp: process_packet_def)

lemma security_drop:
  "IP p = Some h \<Longrightarrow> \<not> is_valid_ip (src h) \<or> \<not> is_valid_ip (dst h) \<Longrightarrow>
     extract_security_loop (p # ps) acc = extract_security_loop ps acc"
  by auto

text \<open>The definitions to unfold when an address is evaluated.\<close>

lemmas ip_eval = is_valid_ip_def re_match_def pattern_def octet_dot_def octet_pattern_def startswith_def
lemmas quad_eval = spec_dotted_quad_def spec_octet_def is_digit_def dec_value_def digit_val_def

lemma not_valid_not_quad:
  assumes "\<not> spec_dotted_quad ip"
    and "\<not> (ip \<noteq> [] \<and> last ip = CHR 0x0A \<and> spec_dotted_quad (butlast ip))"
  shows "\<not> is_valid_ip ip"
proof
  assume "is_valid_ip ip"
  with assms(1) obtain t where t: "ip = t @ [CHR 0x0A]" "spec_dotted_quad t"
    unfolding is_valid_ip_iff by blast
  then have "ip \<noteq> [] \<and> last ip = CHR 0x0A \<and> spec_dotted_quad (butlast ip)" by simp
  with assms(2) show False by simp
qed

lemma extract_security_loop_acc:
  "extract_security_loop ps acc = acc @ extract_security_loop ps []"
proof (induction ps arbitrary: acc)
  case Nil
  show ?case by simp
next
  case (Cons p ps)
  note ih = Cons.IH
  show ?case
  proof (cases "IP p")
    case None
    then show ?thesis using ih[of acc] by simp
  next
    case (Some h)
    show ?thesis
    proof (cases "is_valid_ip (src h) \<and> is_valid_ip (dst h)")
      case True
      let ?r = "\<lparr>src_ip = src h, dst_ip = dst h, protocol = proto h,
             dst_port = (case TCP p of Some tcp \<Rightarrow> dport tcp | None \<Rightarrow> 0),
             tcp_flags = (case TCP p of Some tcp \<Rightarrow> flags tcp | None \<Rightarrow> []),
             time = pkt_time p\<rparr>"
      have "extract_security_loop (p # ps) acc = extract_security_loop ps (acc @ [?r])"
        using Some True by simp
      also have "\<dots> = (acc @ [?r]) @ extract_security_loop ps []" by (rule ih)
      also have "\<dots> = acc @ ([?r] @ extract_security_loop ps [])" by simp
      also have "[?r] @ extract_security_loop ps [] = extract_security_loop ps [?r]"
        by (rule ih[symmetric])
      also have "extract_security_loop ps [?r] = extract_security_loop (p # ps) []"
        using Some True by simp
      finally show ?thesis .
    next
      case False
      then show ?thesis using Some ih[of acc] by auto
    qed
  qed
qed

lemma extract_security_loop_append:
  "extract_security_loop (qs @ ps) acc = extract_security_loop ps (extract_security_loop qs acc)"
  by (induction qs arbitrary: acc) (auto split: option.splits)

lemma rows_extract_security_data:
  "rows (extract_security_data ps) = extract_security_loop ps []"
  by (simp add: extract_security_data_def pd_DataFrame_def)

lemma security_rows_append:
  "rows (extract_security_data (qs @ ps)) =
     rows (extract_security_data qs) @ rows (extract_security_data ps)"
  unfolding rows_extract_security_data extract_security_loop_append
  by (rule extract_security_loop_acc)

lemma security_output_accept:
  assumes "IP p = Some h" and "is_valid_ip (src h)" and "is_valid_ip (dst h)"
  shows "\<exists>r. src_ip r = src h \<and> dst_ip r = dst h \<and> protocol r = proto h \<and> time r = pkt_time p \<and>
       (\<forall>qs ps. rows (extract_security_data (qs @ p # ps)) =
                 rows (extract_security_data qs) @ r # rows (extract_security_data ps))"
proof -
  let ?r = "\<lparr>src_ip = src h, dst_ip = dst h, protocol = proto h,
             dst_port = (case TCP p of Some tcp \<Rightarrow> dport tcp | None \<Rightarrow> 0),
             tcp_flags = (case TCP p of Some tcp \<Rightarrow> flags tcp | None \<Rightarrow> []),
             time = pkt_time p\<rparr>"
  have one: "rows (extract_security_data [p]) = [?r]"
    using assms by (simp add: rows_extract_security_data)
  have "rows (extract_security_data (qs @ p # ps)) =
          rows (extract_security_data qs) @ ?r # rows (extract_security_data ps)" for qs ps
  proof -
    have "rows (extract_security_data (qs @ [p] @ ps)) =
        rows (extract_security_data qs) @ rows (extract_security_data [p]) @ rows (extract_security_data ps)"
      by (simp only: security_rows_append)
    then show ?thesis by (simp add: one)
  qed
  then have "src_ip ?r = src h \<and> dst_ip ?r = dst h \<and> protocol ?r = proto h \<and> time ?r = pkt_time p \<and>
       (\<forall>qs ps. rows (extract_security_data (qs @ p # ps)) =
                 rows (extract_security_data qs) @ ?r # rows (extract_security_data ps))"
    by simp
  then show ?thesis by (rule exI)
qed

lemma security_output_drop:
  assumes "IP p = Some h" and "\<not> is_valid_ip (src h) \<or> \<not> is_valid_ip (dst h)"
  shows "extract_security_data (qs @ p # ps) = extract_security_data (qs @ ps)"
proof -
  have "extract_security_loop (qs @ p # ps) [] = extract_security_loop (qs @ ps) []"
    unfolding extract_security_loop_append using security_drop[OF assms] by simp
  then show ?thesis by (simp add: extract_security_data_def)
qed

lemma general_output_accept:
  assumes "process_packet p = Some r"
  shows "\<exists>df. extract_packet_data (qs @ p # ps) = ([], Inr df) \<and> r \<in> set (rows df)"
  using assms by (simp add: extract_packet_data_def pd_DataFrame_def empty_df_def general_keys_def)

lemma general_output_drop:
  assumes "process_packet p = None"
  shows "extract_packet_data (qs @ p # ps) = extract_packet_data (qs @ ps)"
  using assms by (simp add: extract_packet_data_def)

lemma accepted_into_both:
  assumes "IP p = Some h" and "is_valid_ip (src h)" and "is_valid_ip (dst h)"
  shows "(\<exists>r. process_packet p = Some r \<and> src_ip r = src h \<and> dst_ip r = dst h \<and>
            (\<forall>qs ps. \<exists>df. extract_packet_data (qs @ p # ps) = ([], Inr df) \<and> r \<in> set (rows df))) \<and>
         (\<exists>r. src_ip r = src h \<and> dst_ip r = dst h \<and> protocol r = proto h \<and> time r = pkt_time p \<and>
            (\<forall>qs ps. rows (extract_security_data (qs @ p # ps)) =
                      rows (extract_security_data qs) @ r # rows (extract_security_data ps)))"
proof (rule conjI)
  from process_packet_accept[OF assms] obtain r
    where r: "process_packet p = Some r \<and> src_ip r = src h \<and> dst_ip r = dst h" ..
  then have "\<forall>qs ps. \<exists>df. extract_packet_data (qs @ p # ps) = ([], Inr df) \<and> r \<in> set (rows df)"
    using general_output_accept by blast
  with r have "process_packet p = Some r \<and> src_ip r = src h \<and> dst_ip r = dst h \<and>
            (\<forall>qs ps. \<exists>df. extract_packet_data (qs @ p # ps) = ([], Inr df) \<and> r \<in> set (rows df))"
    by simp
  then show "\<exists>r. process_packet p = Some r \<and> src_ip r = src h \<and> dst_ip r = dst h \<and>
            (\<forall>qs ps. \<exists>df. extract_packet_data (qs @ p # ps) = ([], Inr df) \<and> r \<in> set (rows df))"
    by (rule exI)
next
  show "\<exists>r. src_ip r = src h \<and> dst_ip r = dst h \<and> protocol r = proto h \<and> time r = pkt_time p \<and>
            (\<forall>qs ps. rows (extract_security_data (qs @ p # ps)) =
                      rows (extract_security_data qs) @ r # rows (extract_security_data ps))"
    by (rule security_output_accept[OF assms])
qed

lemma dropped_from_both:
  assumes "IP p = Some h" and "\<not> is_valid_ip (src h) \<or> \<not> is_valid_ip (dst h)"
  shows "process_packet p = None \<and>
         (\<forall>qs ps. extract_packet_data (qs @ p # ps) = extract_packet_data (qs @ ps) \<and>
                   extract_security_data (qs @ p # ps) = extract_security_data (qs @ ps))"
proof -
  have n: "process_packet p = None" by (rule process_packet_drop[OF assms])
  show ?thesis
    using n general_output_drop[OF n] security_output_drop[OF assms] by simp
qed


text \<open>
  C1 (as amended). A packet with an IP layer whose two addresses are dotted quads, none
  of them starting with \<open>0.\<close>, is accepted into both outputs: wherever it stands in the
  capture, its row is among the rows of the general-traffic frame and its security
  record stands in the security frame between the records of the packets before it
  and after it. A packet one of whose addresses starts with \<open>0.\<close>, or is neither a
  dotted quad nor a dotted quad followed by one final newline, is dropped from both:
  the two outputs are those of the capture without the packet.
\<close>

theorem feature_extractor_filter:
  assumes "IP p = Some h"
  shows "(spec_dotted_quad (src h) \<and> spec_dotted_quad (dst h) \<and>
          \<not> startswith (src h) ''0.'' \<and> \<not> startswith (dst h) ''0.'' \<longrightarrow>
            (\<exists>r. process_packet p = Some r \<and> src_ip r = src h \<and> dst_ip r = dst h \<and>
               (\<forall>qs ps. \<exists>df. extract_packet_data (qs @ p # ps) = ([], Inr df) \<and> r \<in> set (rows df))) \<and>
            (\<exists>r. src_ip r = src h \<and> dst_ip r = dst h \<and> protocol r = proto h \<and> time r = pkt_time p \<and>
               (\<forall>qs ps. rows (extract_security_data (qs @ p # ps)) =
                         rows (extract_security_data qs) @ r # rows (extract_security_data ps))))
       \<and> (startswith (src h) ''0.'' \<or> startswith (dst h) ''0.'' \<or>
          (\<not> spec_dotted_quad (src h) \<and>
           \<not> (src h \<noteq> [] \<and> last (src h) = CHR 0x0A \<and> spec_dotted_quad (butlast (src h)))) \<or>
          (\<not> spec_dotted_quad (dst h) \<and>
           \<not> (dst h \<noteq> [] \<and> last (dst h) = CHR 0x0A \<and> spec_dotted_quad (butlast (dst h)))) \<longrightarrow>
            process_packet p = None \<and>
            (\<forall>qs ps. extract_packet_data (qs @ p # ps) = extract_packet_data (qs @ ps) \<and>
                      extract_security_data (qs @ p # ps) = extract_security_data (qs @ ps)))"
proof (intro conjI impI)
  assume a: "spec_dotted_quad (src h) \<and> spec_dotted_quad (dst h) \<and>
          \<not> startswith (src h) ''0.'' \<and> \<not> startswith (dst h) ''0.''"
  then have v: "is_valid_ip (src h)" "is_valid_ip (dst h)"
    by (simp_all add: is_valid_ip_dotted_quad)
  note acc = accepted_into_both[OF assms v]
  show "\<exists>r. process_packet p = Some r \<and> src_ip r = src h \<and> dst_ip r = dst h \<and>
               (\<forall>qs ps. \<exists>df. extract_packet_data (qs @ p # ps) = ([], Inr df) \<and> r \<in> set (rows df))"
    using acc by (rule conjunct1)
  show "\<exists>r. src_ip r = src h \<and> dst_ip r = dst h \<and> protocol r = proto h \<and> time r = pkt_time p \<and>
               (\<forall>qs ps. rows (extract_security_data (qs @ p # ps)) =
                         rows (extract_security_data qs) @ r # rows (extract_security_data ps))"
    using acc by (rule conjunct2)
next
  assume b: "startswith (src h) ''0.'' \<or> startswith (dst h) ''0.'' \<or>
          (\<not> spec_dotted_quad (src h) \<and>
           \<not> (src h \<noteq> [] \<and> last (src h) = CHR 0x0A \<and> spec_dotted_quad (butlast (src h)))) \<or>
          (\<not> spec_dotted_quad (dst h) \<and>
           \<not> (dst h \<noteq> [] \<and> last (dst h) = CHR 0x0A \<and> spec_dotted_quad (butlast (dst h))))"
  then have nv: "\<not> is_valid_ip (src h) \<or> \<not> is_valid_ip (dst h)"
    using not_valid_leading_zero not_valid_not_quad by blast
  note d = dropped_from_both[OF assms nv]
  show "process_packet p = None" using d by (rule conjunct1)
  show "\<forall>qs ps. extract_packet_data (qs @ p # ps) = extract_packet_data (qs @ ps) \<and>
                extract_security_data (qs @ p # ps) = extract_security_data (qs @ ps)"
    using d by (rule conjunct2)
qed

text \<open>
  The theorem at a packet that is accepted, between an ARP frame and another TCP
  segment, and at two packets that are dropped: one with an octet above 255 and one
  with a newline inside the address.
\<close>

theorem feature_extractor_filter_witness:
  "spec_dotted_quad ''192.168.1.10'' \<and> spec_dotted_quad ''10.0.0.255'' \<and>
   \<not> startswith ''192.168.1.10'' ''0.'' \<and> \<not> startswith ''10.0.0.255'' ''0.'' \<and>
   (\<exists>r. process_packet (tcp_packet ''192.168.1.10'' ''10.0.0.255'' 80 ''S'' 1) = Some r \<and>
        src_ip r = ''192.168.1.10'' \<and> dst_ip r = ''10.0.0.255'' \<and>
        (\<exists>df. extract_packet_data
                 [arp_packet, tcp_packet ''192.168.1.10'' ''10.0.0.255'' 80 ''S'' 1,
                  tcp_packet ''8.8.8.8'' ''10.0.0.255'' 53 ''A'' 2] = ([], Inr df) \<and>
              r \<in> set (rows df))) \<and>
   (\<exists>r. src_ip r = ''192.168.1.10'' \<and> dst_ip r = ''10.0.0.255'' \<and>
      rows (extract_security_data
              [arp_packet, tcp_packet ''192.168.1.10'' ''10.0.0.255'' 80 ''S'' 1,
               tcp_packet ''8.8.8.8'' ''10.0.0.255'' 53 ''A'' 2]) =
        rows (extract_security_data [arp_packet]) @ r #
        rows (extract_security_data [tcp_packet ''8.8.8.8'' ''10.0.0.255'' 53 ''A'' 2])) \<and>
   \<not> spec_dotted_quad ''256.1.1.1'' \<and>
   process_packet (tcp_packet ''256.1.1.1'' ''10.0.0.255'' 80 ''S'' 1) = None \<and>
   extract_security_data [arp_packet, tcp_packet ''256.1.1.1'' ''10.0.0.255'' 80 ''S'' 1] =
     extract_security_data [arp_packet] \<and>
   \<not> spec_dotted_quad (''1.2'' @ [CHR 0x0A] @ ''.3.4'') \<and>
   process_packet (tcp_packet (''1.2'' @ [CHR 0x0A] @ ''.3.4'') ''10.0.0.255'' 80 ''S'' 1) = None"
proof -
  let ?ok = "tcp_packet ''192.168.1.10'' ''10.0.0.255'' 80 ''S'' 1"
  let ?big = "tcp_packet ''256.1.1.1'' ''10.0.0.255'' 80 ''S'' 1"
  let ?nl = "tcp_packet (''1.2'' @ [CHR 0x0A] @ ''.3.4'') ''10.0.0.255'' 80 ''S'' 1"
  have q: "spec_dotted_quad ''192.168.1.10''" "spec_dotted_quad ''10.0.0.255''"
    "\<not> startswith ''192.168.1.10'' ''0.''" "\<not> startswith ''10.0.0.255'' ''0.''"
    "\<not> spec_dotted_quad ''256.1.1.1''" "\<not> spec_dotted_quad (''1.2'' @ [CHR 0x0A] @ ''.3.4'')"
    by (simp_all add: quad_eval startswith_def)
  have a: "IP ?ok = Some \<lparr>src = ''192.168.1.10'', dst = ''10.0.0.255'', proto = 6\<rparr>"
    and b: "IP ?big = Some \<lparr>src = ''256.1.1.1'', dst = ''10.0.0.255'', proto = 6\<rparr>"
    and c: "IP ?nl = Some \<lparr>src = ''1.2'' @ [CHR 0x0A] @ ''.3.4'', dst = ''10.0.0.255'', proto = 6\<rparr>"
    by (simp_all add: tcp_packet_def)
  from feature_extractor_filter[OF a, THEN conjunct1] q(1-4)
  have acc: "(\<exists>r. process_packet ?ok = Some r \<and> src_ip r = ''192.168.1.10'' \<and> dst_ip r = ''10.0.0.255'' \<and>
               (\<forall>qs ps. \<exists>df. extract_packet_data (qs @ ?ok # ps) = ([], Inr df) \<and> r \<in> set (rows df))) \<and>
            (\<exists>r. src_ip r = ''192.168.1.10'' \<and> dst_ip r = ''10.0.0.255'' \<and> protocol r = 6 \<and> time r = pkt_time ?ok \<and>
               (\<forall>qs ps. rows (extract_security_data (qs @ ?ok # ps)) =
                         rows (extract_security_data qs) @ r # rows (extract_security_data ps)))"
    by simp
  from acc obtain r where r: "process_packet ?ok = Some r" "src_ip r = ''192.168.1.10''"
      "dst_ip r = ''10.0.0.255''"
      "\<forall>qs ps. \<exists>df. extract_packet_data (qs @ ?ok # ps) = ([], Inr df) \<and> r \<in> set (rows df)"
    by (elim conjE exE)
  from r(4)[rule_format, of "[arp_packet]" "[tcp_packet ''8.8.8.8'' ''10.0.0.255'' 53 ''A'' 2]"]
  have g: "\<exists>r. process_packet ?ok = Some r \<and> src_ip r = ''192.168.1.10'' \<and> dst_ip r = ''10.0.0.255'' \<and>
        (\<exists>df. extract_packet_data [arp_packet, ?ok, tcp_packet ''8.8.8.8'' ''10.0.0.255'' 53 ''A'' 2] = ([], Inr df) \<and>
              r \<in> set (rows df))"
    using r(1-3) by (intro exI[of _ r]) simp
  from acc obtain s where s: "src_ip s = ''192.168.1.10''" "dst_ip s = ''10.0.0.255''"
      "\<forall>qs ps. rows (extract_security_data (qs @ ?ok # ps)) =
                         rows (extract_security_data qs) @ s # rows (extract_security_data ps)"
    by (elim conjE exE)
  from s(3)[rule_format, of "[arp_packet]" "[tcp_packet ''8.8.8.8'' ''10.0.0.255'' 53 ''A'' 2]"]
  have sec: "\<exists>r. src_ip r = ''192.168.1.10'' \<and> dst_ip r = ''10.0.0.255'' \<and>
      rows (extract_security_data [arp_packet, ?ok, tcp_packet ''8.8.8.8'' ''10.0.0.255'' 53 ''A'' 2]) =
        rows (extract_security_data [arp_packet]) @ r #
        rows (extract_security_data [tcp_packet ''8.8.8.8'' ''10.0.0.255'' 53 ''A'' 2])"
    using s(1,2) by (intro exI[of _ s]) simp
  from feature_extractor_filter[OF b, THEN conjunct2] q(5)
  have d1: "process_packet ?big = None \<and>
            (\<forall>qs ps. extract_packet_data (qs @ ?big # ps) = extract_packet_data (qs @ ps) \<and>
                      extract_security_data (qs @ ?big # ps) = extract_security_data (qs @ ps))"
    by simp
  from d1 have d1a: "process_packet ?big = None" by (rule conjunct1)
  from d1 have "extract_security_data ([arp_packet] @ ?big # []) = extract_security_data ([arp_packet] @ [])"
    by blast
  then have d1b: "extract_security_data [arp_packet, ?big] = extract_security_data [arp_packet]" by simp
  from feature_extractor_filter[OF c, THEN conjunct2] q(6)
  have d2: "process_packet ?nl = None" by simp
  show ?thesis
    by (intro conjI q g sec d1a d1b d2)
qed

text \<open>
  C1 as it is stated asks nothing of the destination but to be a dotted quad. This
  packet has a source that is a dotted quad not starting with \<open>0.\<close> and a destination
  that is a dotted quad, and it is dropped from both outputs.
\<close>

theorem feature_extractor_filter_counterexample:
  "spec_dotted_quad ''1.2.3.4'' \<and> spec_dotted_quad ''0.1.2.3'' \<and> \<not> startswith ''1.2.3.4'' ''0.'' \<and>
   process_packet (tcp_packet ''1.2.3.4'' ''0.1.2.3'' 80 ''S'' 1) = None \<and>
   extract_security_loop [tcp_packet ''1.2.3.4'' ''0.1.2.3'' 80 ''S'' 1] [] = []"
  by (simp add: quad_eval ip_eval process_packet_def tcp_packet_def)


text \<open>
  C9. A packet whose destination address starts with \<open>0.\<close> gives no row on the general
  path and no row on the security path, whatever its source address is.
\<close>

theorem destination_leading_zero_dropped:
  assumes "IP p = Some h" and "startswith (dst h) ''0.''"
  shows "process_packet p = None \<and>
         (\<forall>ps acc. extract_security_loop (p # ps) acc = extract_security_loop ps acc)"
proof -
  from assms(2) have nv: "\<not> is_valid_ip (src h) \<or> \<not> is_valid_ip (dst h)"
    by (simp add: not_valid_leading_zero)
  show ?thesis
    using process_packet_drop[OF assms(1) nv] security_drop[OF assms(1) nv] by blast
qed

theorem destination_leading_zero_dropped_witness:
  "is_valid_ip ''192.168.1.10'' \<and> startswith ''0.0.0.1'' ''0.'' \<and>
   process_packet (tcp_packet ''192.168.1.10'' ''0.0.0.1'' 443 ''S'' 2) = None \<and>
   (\<forall>ps acc. extract_security_loop (tcp_packet ''192.168.1.10'' ''0.0.0.1'' 443 ''S'' 2 # ps) acc =
             extract_security_loop ps acc)"
proof -
  have a: "IP (tcp_packet ''192.168.1.10'' ''0.0.0.1'' 443 ''S'' 2) =
             Some \<lparr>src = ''192.168.1.10'', dst = ''0.0.0.1'', proto = 6\<rparr>"
    by (simp add: tcp_packet_def)
  have b: "startswith (dst \<lparr>src = ''192.168.1.10'', dst = ''0.0.0.1'', proto = 6\<rparr>) ''0.''"
    by (simp add: startswith_def)
  have c: "is_valid_ip ''192.168.1.10''" by (simp add: ip_eval)
  show ?thesis
    using destination_leading_zero_dropped[OF a b] b c by simp
qed

lemma octet_prefix_zero:
  assumes "spec_octet a"
  shows "startswith (a @ CHR ''.'' # rest) ''0.'' \<longleftrightarrow> a = ''0''"
  using assms
proof (cases a rule: spec_octet_cases)
  case (1 x)
  then show ?thesis by (simp add: startswith_def)
next
  case (2 x y)
  with assms have "y \<noteq> CHR ''.''" by (auto simp: spec_octet_def is_digit_def)
  with 2 show ?thesis by (simp add: startswith_def)
next
  case (3 x y z)
  with assms have "y \<noteq> CHR ''.''" by (auto simp: spec_octet_def is_digit_def)
  with 3 show ?thesis by (simp add: startswith_def)
qed

lemma is_valid_ip_octets:
  assumes "spec_octet a" and "spec_octet b" and "spec_octet c" and "spec_octet d"
  shows "is_valid_ip (a @ ''.'' @ b @ ''.'' @ c @ ''.'' @ d) \<longleftrightarrow> a \<noteq> ''0''"
proof -
  have "spec_dotted_quad (a @ CHR ''.'' # b @ CHR ''.'' # c @ CHR ''.'' # d)"
    unfolding spec_dotted_quad_iff using assms by blast
  then have "is_valid_ip (a @ CHR ''.'' # b @ CHR ''.'' # c @ CHR ''.'' # d) \<longleftrightarrow>
      \<not> startswith (a @ CHR ''.'' # b @ CHR ''.'' # c @ CHR ''.'' # d) ''0.''"
    by (rule is_valid_ip_dotted_quad)
  also have "\<dots> \<longleftrightarrow> a \<noteq> ''0''"
    unfolding octet_prefix_zero[OF assms(1)] ..
  finally show ?thesis by simp
qed

text \<open>
  C10. An address of four octets is valid if and only if its first octet is not the
  single digit \<open>0\<close>; among dotted quads, \<open>is_valid_ip\<close> rejects exactly those that start
  with the two characters \<open>0.\<close>. Zero digits in front of an octet do not matter: \<open>01\<close>
  and \<open>007\<close> are octets, \<open>1.01.2.3\<close> and \<open>1.2.3.007\<close> are valid. Every packet whose two
  addresses are dotted quads that do not start with \<open>0.\<close> is accepted into both
  outputs, wherever it stands in the capture.
\<close>

theorem leading_zero_first_octet_only:
  "(spec_octet a \<and> spec_octet b \<and> spec_octet c \<and> spec_octet d \<longrightarrow>
      (is_valid_ip (a @ ''.'' @ b @ ''.'' @ c @ ''.'' @ d) \<longleftrightarrow> a \<noteq> ''0'')) \<and>
   (spec_dotted_quad ip \<longrightarrow> (is_valid_ip ip \<longleftrightarrow> \<not> startswith ip ''0.'')) \<and>
   spec_octet ''01'' \<and> spec_octet ''007'' \<and>
   is_valid_ip ''1.01.2.3'' \<and> is_valid_ip ''1.2.3.007'' \<and>
   (IP p = Some h \<and> spec_dotted_quad (src h) \<and> spec_dotted_quad (dst h) \<and>
    \<not> startswith (src h) ''0.'' \<and> \<not> startswith (dst h) ''0.'' \<longrightarrow>
      (\<exists>r. process_packet p = Some r \<and> src_ip r = src h \<and> dst_ip r = dst h \<and>
         (\<forall>qs ps. \<exists>df. extract_packet_data (qs @ p # ps) = ([], Inr df) \<and> r \<in> set (rows df))) \<and>
      (\<exists>r. src_ip r = src h \<and> dst_ip r = dst h \<and> protocol r = proto h \<and> time r = pkt_time p \<and>
         (\<forall>qs ps. rows (extract_security_data (qs @ p # ps)) =
                   rows (extract_security_data qs) @ r # rows (extract_security_data ps))))"
proof (intro conjI impI)
  assume "spec_octet a \<and> spec_octet b \<and> spec_octet c \<and> spec_octet d"
  then show "is_valid_ip (a @ ''.'' @ b @ ''.'' @ c @ ''.'' @ d) \<longleftrightarrow> a \<noteq> ''0''"
    using is_valid_ip_octets by blast
next
  assume "spec_dotted_quad ip"
  then show "is_valid_ip ip \<longleftrightarrow> \<not> startswith ip ''0.''"
    by (rule is_valid_ip_dotted_quad)
next
  show "spec_octet ''01''" by (simp add: quad_eval)
  show "spec_octet ''007''" by (simp add: quad_eval)
  show "is_valid_ip ''1.01.2.3''" by (simp add: ip_eval)
  show "is_valid_ip ''1.2.3.007''" by (simp add: ip_eval)
next
  assume a: "IP p = Some h \<and> spec_dotted_quad (src h) \<and> spec_dotted_quad (dst h) \<and>
    \<not> startswith (src h) ''0.'' \<and> \<not> startswith (dst h) ''0.''"
  then have h: "IP p = Some h" "is_valid_ip (src h)" "is_valid_ip (dst h)"
    by (simp_all add: is_valid_ip_dotted_quad)
  note acc = accepted_into_both[OF h]
  show "\<exists>r. process_packet p = Some r \<and> src_ip r = src h \<and> dst_ip r = dst h \<and>
         (\<forall>qs ps. \<exists>df. extract_packet_data (qs @ p # ps) = ([], Inr df) \<and> r \<in> set (rows df))"
    using acc by (rule conjunct1)
  show "\<exists>r. src_ip r = src h \<and> dst_ip r = dst h \<and> protocol r = proto h \<and> time r = pkt_time p \<and>
         (\<forall>qs ps. rows (extract_security_data (qs @ p # ps)) =
                   rows (extract_security_data qs) @ r # rows (extract_security_data ps))"
    using acc by (rule conjunct2)
qed

theorem leading_zero_first_octet_only_witness:
  "spec_octet ''00'' \<and> spec_octet ''1'' \<and> spec_octet ''02'' \<and> spec_octet ''003'' \<and>
   is_valid_ip ''00.1.02.003'' \<and> ''00'' \<noteq> ''0'' \<and>
   spec_dotted_quad ''1.01.2.3'' \<and> spec_dotted_quad ''1.2.3.007'' \<and>
   \<not> startswith ''1.01.2.3'' ''0.'' \<and> \<not> startswith ''1.2.3.007'' ''0.'' \<and>
   (\<exists>r. process_packet (tcp_packet ''1.01.2.3'' ''1.2.3.007'' 22 ''S'' 0) = Some r \<and>
        src_ip r = ''1.01.2.3'' \<and> dst_ip r = ''1.2.3.007'' \<and>
        (\<exists>df. extract_packet_data [arp_packet, tcp_packet ''1.01.2.3'' ''1.2.3.007'' 22 ''S'' 0] =
                 ([], Inr df) \<and> r \<in> set (rows df))) \<and>
   (\<exists>r. src_ip r = ''1.01.2.3'' \<and> dst_ip r = ''1.2.3.007'' \<and>
      rows (extract_security_data [arp_packet, tcp_packet ''1.01.2.3'' ''1.2.3.007'' 22 ''S'' 0]) =
        rows (extract_security_data [arp_packet]) @ r # rows (extract_security_data []))"
proof -
  let ?p = "tcp_packet ''1.01.2.3'' ''1.2.3.007'' 22 ''S'' 0"
  let ?h = "\<lparr>src = ''1.01.2.3'', dst = ''1.2.3.007'', proto = 6\<rparr>"
  have o: "spec_octet ''00''" "spec_octet ''1''" "spec_octet ''02''" "spec_octet ''003''"
    by (simp_all add: quad_eval)
  have q: "spec_dotted_quad ''1.01.2.3''" "spec_dotted_quad ''1.2.3.007''"
    "\<not> startswith ''1.01.2.3'' ''0.''" "\<not> startswith ''1.2.3.007'' ''0.''"
    by (simp_all add: quad_eval startswith_def)
  note t = leading_zero_first_octet_only[of "''00''" "''1''" "''02''" "''003''" "''1.01.2.3''" ?p ?h]
  from t[THEN conjunct1] o have v: "is_valid_ip ''00.1.02.003''" by simp
  have ne: "''00'' \<noteq> ''0''" by simp
  have a: "IP ?p = Some ?h" by (simp add: tcp_packet_def)
  from t[THEN conjunct2, THEN conjunct2, THEN conjunct2, THEN conjunct2, THEN conjunct2,
      THEN conjunct2] a q
  have acc: "(\<exists>r. process_packet ?p = Some r \<and> src_ip r = ''1.01.2.3'' \<and> dst_ip r = ''1.2.3.007'' \<and>
         (\<forall>qs ps. \<exists>df. extract_packet_data (qs @ ?p # ps) = ([], Inr df) \<and> r \<in> set (rows df))) \<and>
      (\<exists>r. src_ip r = ''1.01.2.3'' \<and> dst_ip r = ''1.2.3.007'' \<and> protocol r = 6 \<and> time r = pkt_time ?p \<and>
         (\<forall>qs ps. rows (extract_security_data (qs @ ?p # ps)) =
                   rows (extract_security_data qs) @ r # rows (extract_security_data ps)))"
    by simp
  from acc obtain r where r: "process_packet ?p = Some r" "src_ip r = ''1.01.2.3''"
      "dst_ip r = ''1.2.3.007''"
      "\<forall>qs ps. \<exists>df. extract_packet_data (qs @ ?p # ps) = ([], Inr df) \<and> r \<in> set (rows df)"
    by (elim conjE exE)
  from r(4)[rule_format, of "[arp_packet]" "[]"]
  have g: "\<exists>r. process_packet ?p = Some r \<and> src_ip r = ''1.01.2.3'' \<and> dst_ip r = ''1.2.3.007'' \<and>
        (\<exists>df. extract_packet_data [arp_packet, ?p] = ([], Inr df) \<and> r \<in> set (rows df))"
    using r(1-3) by (intro exI[of _ r]) simp
  from acc obtain s where s: "src_ip s = ''1.01.2.3''" "dst_ip s = ''1.2.3.007''"
      "\<forall>qs ps. rows (extract_security_data (qs @ ?p # ps)) =
                         rows (extract_security_data qs) @ s # rows (extract_security_data ps)"
    by (elim conjE exE)
  from s(3)[rule_format, of "[arp_packet]" "[]"]
  have sec: "\<exists>r. src_ip r = ''1.01.2.3'' \<and> dst_ip r = ''1.2.3.007'' \<and>
      rows (extract_security_data [arp_packet, ?p]) =
        rows (extract_security_data [arp_packet]) @ r # rows (extract_security_data [])"
    using s(1,2) by (intro exI[of _ s]) simp
  show ?thesis
    by (intro conjI o v ne q g sec)
qed

section \<open>DNS records\<close>

lemma extract_dns_loop_total:
  assumes "\<forall>p \<in> set ps. \<forall>d n. DNS p = Some d \<longrightarrow> qd d = Some n \<longrightarrow> IP p \<noteq> None \<and> n \<noteq> Undecodable"
  shows "extract_dns_loop ps acc =
     Inr (acc @ concat (map (\<lambda>p.
        case DNS p of None \<Rightarrow> []
        | Some d \<Rightarrow> (case qd d of None \<Rightarrow> []
           | Some n \<Rightarrow> (case IP p of None \<Rightarrow> []
              | Some h \<Rightarrow> (case n of Undecodable \<Rightarrow> []
                 | Text q \<Rightarrow>
                     if is_valid_ip (src h) \<and> is_valid_ip (dst h)
                     then [\<lparr>dns_src_ip = src h, dns_dst_ip = dst h, query = q\<rparr>] else [])))) ps))"
  using assms
proof (induction ps arbitrary: acc)
  case Nil
  then show ?case by simp
next
  case (Cons p ps)
  then have ih: "\<And>acc'. extract_dns_loop ps acc' =
     Inr (acc' @ concat (map (\<lambda>p.
        case DNS p of None \<Rightarrow> []
        | Some d \<Rightarrow> (case qd d of None \<Rightarrow> []
           | Some n \<Rightarrow> (case IP p of None \<Rightarrow> []
              | Some h \<Rightarrow> (case n of Undecodable \<Rightarrow> []
                 | Text q \<Rightarrow>
                     if is_valid_ip (src h) \<and> is_valid_ip (dst h)
                     then [\<lparr>dns_src_ip = src h, dns_dst_ip = dst h, query = q\<rparr>] else [])))) ps))"
    by simp
  from Cons.prems have hd: "\<forall>d n. DNS p = Some d \<longrightarrow> qd d = Some n \<longrightarrow> IP p \<noteq> None \<and> n \<noteq> Undecodable"
    by simp
  show ?case
    using hd by (auto simp: ih split: option.splits qname.splits)
qed

text \<open>
  C4 (as amended). When every packet with a DNS question section has an IP layer and a
  name that decodes, \<open>extract_dns_data\<close> returns, in the order of the packets, one
  record (source, destination, name) for each packet with a question section whose
  two addresses both pass \<open>is_valid_ip\<close>, and nothing for the other packets.
\<close>

theorem extract_dns_data_filtered:
  assumes "\<forall>p \<in> set ps. \<forall>d n. DNS p = Some d \<longrightarrow> qd d = Some n \<longrightarrow> IP p \<noteq> None \<and> n \<noteq> Undecodable"
  shows "extract_dns_data ps =
     Inr (concat (map (\<lambda>p.
        case DNS p of None \<Rightarrow> []
        | Some d \<Rightarrow> (case qd d of None \<Rightarrow> []
           | Some n \<Rightarrow> (case IP p of None \<Rightarrow> []
              | Some h \<Rightarrow> (case n of Undecodable \<Rightarrow> []
                 | Text q \<Rightarrow>
                     if is_valid_ip (src h) \<and> is_valid_ip (dst h)
                     then [\<lparr>dns_src_ip = src h, dns_dst_ip = dst h, query = q\<rparr>] else [])))) ps))"
  unfolding extract_dns_data_def using extract_dns_loop_total[OF assms, of "[]"] by simp

theorem extract_dns_data_filtered_witness:
  "extract_dns_data [dns_packet ''192.168.1.10'' ''8.8.8.8'' ''example.org.'', arp_packet,
                     dns_packet ''0.0.0.0'' ''224.0.0.251'' ''printer.local.''] =
     Inr [\<lparr>dns_src_ip = ''192.168.1.10'', dns_dst_ip = ''8.8.8.8'', query = ''example.org.''\<rparr>]"
proof -
  have v: "is_valid_ip ''192.168.1.10''" "is_valid_ip ''8.8.8.8''" "\<not> is_valid_ip ''0.0.0.0''"
    by (simp_all add: ip_eval)
  have h: "\<forall>p \<in> set [dns_packet ''192.168.1.10'' ''8.8.8.8'' ''example.org.'', arp_packet,
                     dns_packet ''0.0.0.0'' ''224.0.0.251'' ''printer.local.''].
        \<forall>d n. DNS p = Some d \<longrightarrow> qd d = Some n \<longrightarrow> IP p \<noteq> None \<and> n \<noteq> Undecodable"
    by (auto simp: dns_packet_def arp_packet_def)
  show ?thesis
    using extract_dns_data_filtered[OF h] v by (simp add: dns_packet_def arp_packet_def)
qed

text \<open>
  C4 as it is stated: this packet has a DNS question section, and no record is made
  of it, because its source address does not pass \<open>is_valid_ip\<close>.
\<close>

theorem extract_dns_data_counterexample:
  "DNS (dns_packet ''0.0.0.0'' ''224.0.0.251'' ''printer.local.'') =
     Some \<lparr>qd = Some (Text ''printer.local.'')\<rparr> \<and>
   extract_dns_data [dns_packet ''0.0.0.0'' ''224.0.0.251'' ''printer.local.''] = Inr []"
  by (simp add: extract_dns_data_def dns_packet_def ip_eval)


section \<open>Grouping\<close>

lemma groupby_size_keys: "map fst (groupby_size key rs) = sort (remdups (map key rs))"
  by (simp add: groupby_size_def comp_def)

lemma groupby_size_distinct_keys: "distinct (map fst (groupby_size key rs))"
  by (simp add: groupby_size_keys)

lemma groupby_size_distinct: "distinct (groupby_size key rs)"
  using groupby_size_distinct_keys[of key rs] by (simp add: distinct_map)

lemma groupby_size_key_set: "fst ` set (groupby_size key rs) = key ` set rs"
  using arg_cong[OF groupby_size_keys[of key rs], of set] by simp

lemma groupby_size_mem:
  "(k, n) \<in> set (groupby_size key rs) \<longleftrightarrow> k \<in> key ` set rs \<and> n = length (filter (\<lambda>r. key r = k) rs)"
  by (auto simp: groupby_size_def)

lemma groupby_size_perm:
  assumes "mset rs' = mset rs"
  shows "groupby_size key rs' = groupby_size key rs"
proof -
  have s: "set rs' = set rs" using assms by (rule mset_eq_setD)
  have "sort (remdups (map key rs')) = sort (remdups (map key rs))"
    using s by (metis list.set_map sorted_list_of_set_sort_remdups)
  moreover have "\<And>k. length (filter (\<lambda>r. key r = k) rs') = length (filter (\<lambda>r. key r = k) rs)"
    using assms by (metis mset_filter size_mset)
  ultimately show ?thesis by (simp add: groupby_size_def)
qed

text \<open>The second grouping counts, for a source, the distinct ports of the first.\<close>

lemma count_of_keys_with_fst:
  "length (filter (\<lambda>kc. fst (fst kc) = a) (groupby_size (\<lambda>r. (f r, g r)) rs)) =
     card (g ` {r \<in> set rs. f r = a})"
proof -
  let ?tab = "groupby_size (\<lambda>r. (f r, g r)) rs"
  have "length (filter (\<lambda>kc. fst (fst kc) = a) ?tab) = card ({kc. fst (fst kc) = a} \<inter> set ?tab)"
    by (rule distinct_length_filter[OF groupby_size_distinct])
  also have "{kc. fst (fst kc) = a} \<inter> set ?tab =
      (\<lambda>p. ((a, p), length (filter (\<lambda>r. (f r, g r) = (a, p)) rs))) ` (g ` {r \<in> set rs. f r = a})"
    by (auto simp: groupby_size_mem image_iff)
  also have "card \<dots> = card (g ` {r \<in> set rs. f r = a})"
    by (rule card_image) (simp add: inj_on_def)
  finally show ?thesis .
qed

lemma pd_DataFrame_nonempty [simp]:
  "rs \<noteq> [] \<Longrightarrow> columns (pd_DataFrame ks rs) = ks" "rows (pd_DataFrame ks rs) = rs"
  by (simp_all add: pd_DataFrame_def)

lemma detect_port_scanning_eq:
  assumes "rs \<noteq> []"
  shows "detect_port_scanning thr (pd_DataFrame security_keys rs) =
     Inr (filter (\<lambda>ipn. thr \<le> int (snd ipn))
       (groupby_size (\<lambda>kc. fst (fst kc))
         (groupby_size (\<lambda>r. (src_ip r, dst_port r))
            (filter (\<lambda>r. protocol r = 6 \<and> CHR ''S'' \<in> set (tcp_flags r)) rs))))"
  using assms by (simp add: detect_port_scanning_def security_keys_def)

lemma scanners_mem:
  "(a, n) \<in> set (filter (\<lambda>ipn. thr \<le> int (snd ipn))
       (groupby_size (\<lambda>kc. fst (fst kc)) (groupby_size (\<lambda>r. (src_ip r, dst_port r)) syn))) \<longleftrightarrow>
   a \<in> src_ip ` set syn \<and> n = card (dst_port ` {r \<in> set syn. src_ip r = a}) \<and> thr \<le> int n"
proof -
  have "(\<lambda>kc. fst (fst kc)) ` set (groupby_size (\<lambda>r. (src_ip r, dst_port r)) syn) =
        fst ` set (map fst (groupby_size (\<lambda>r. (src_ip r, dst_port r)) syn))"
    by (simp add: image_image)
  also have "\<dots> = src_ip ` set syn"
    unfolding groupby_size_keys by (simp add: image_image)
  finally have "a \<in> (\<lambda>kc. fst (fst kc)) ` set (groupby_size (\<lambda>r. (src_ip r, dst_port r)) syn) \<longleftrightarrow> a \<in> src_ip ` set syn"
    by simp
  then show ?thesis
    by (auto simp: groupby_size_mem[of a n "\<lambda>kc. fst (fst kc)"] count_of_keys_with_fst)
qed


section \<open>Port-scan detection\<close>

lemma syn_ports: "dst_port ` {r \<in> set (filter (\<lambda>r. protocol r = 6 \<and> CHR ''S'' \<in> set (tcp_flags r)) rs). src_ip r = a} = dst_port ` {r \<in> set rs. src_ip r = a \<and> protocol r = 6 \<and> CHR ''S'' \<in> set (tcp_flags r)}"
  by auto
lemma syn_src: "a \<in> src_ip ` set (filter (\<lambda>r. protocol r = 6 \<and> CHR ''S'' \<in> set (tcp_flags r)) rs) \<longleftrightarrow>
      (\<exists>r \<in> set rs. src_ip r = a \<and> protocol r = 6 \<and> CHR ''S'' \<in> set (tcp_flags r))"
  by auto
lemma syn_scanners_mem: "(a, n) \<in> set (filter (\<lambda>ipn. thr \<le> int (snd ipn))
       (groupby_size (\<lambda>kc. fst (fst kc)) (groupby_size (\<lambda>r. (src_ip r, dst_port r)) (filter (\<lambda>r. protocol r = 6 \<and> CHR ''S'' \<in> set (tcp_flags r)) rs)))) \<longleftrightarrow> (\<exists>r \<in> set rs. src_ip r = a \<and> protocol r = 6 \<and> CHR ''S'' \<in> set (tcp_flags r)) \<and>
        n = card (dst_port ` {r \<in> set rs. src_ip r = a \<and> protocol r = 6 \<and> CHR ''S'' \<in> set (tcp_flags r)}) \<and> thr \<le> int n"
  unfolding scanners_mem syn_ports syn_src ..
text \<open>
  C2. On a non-empty set of security records, port-scan detection returns a table of
  source addresses with their numbers of distinct destination ports among the TCP SYN
  records (protocol 6, an \<open>S\<close> in the flags). A source is in the table if and only if
  it has such a record and its number of distinct ports is at least the threshold; for
  a positive threshold, if and only if that number is at least the threshold. The
  number counts ports, not records: repeated SYNs to one port count once.
\<close>

theorem detect_port_scanning_distinct_ports:
  assumes "rs \<noteq> []"
  shows "\<exists>tab. detect_port_scanning thr (pd_DataFrame security_keys rs) = Inr tab \<and>
     (\<forall>a n. (a, n) \<in> set tab \<longleftrightarrow>
        (\<exists>r \<in> set rs. src_ip r = a \<and> protocol r = 6 \<and> CHR ''S'' \<in> set (tcp_flags r)) \<and>
        n = card (dst_port ` {r \<in> set rs. src_ip r = a \<and> protocol r = 6 \<and> CHR ''S'' \<in> set (tcp_flags r)}) \<and>
        thr \<le> int n) \<and>
     (0 < thr \<longrightarrow>
       (\<forall>a. a \<in> fst ` set tab \<longleftrightarrow>
          thr \<le> int (card (dst_port ` {r \<in> set rs. src_ip r = a \<and> protocol r = 6 \<and> CHR ''S'' \<in> set (tcp_flags r)}))))"
proof -
  define tab where "tab = filter (\<lambda>ipn. thr \<le> int (snd ipn))
       (groupby_size (\<lambda>kc. fst (fst kc)) (groupby_size (\<lambda>r. (src_ip r, dst_port r))
          (filter (\<lambda>r. protocol r = 6 \<and> CHR ''S'' \<in> set (tcp_flags r)) rs)))"
  define syn where "syn = (\<lambda>a. \<exists>r \<in> set rs. src_ip r = a \<and> protocol r = 6 \<and> CHR ''S'' \<in> set (tcp_flags r))"
  define ports where "ports = (\<lambda>a. dst_port ` {r \<in> set rs. src_ip r = a \<and> protocol r = 6 \<and> CHR ''S'' \<in> set (tcp_flags r)})"
  have eq: "detect_port_scanning thr (pd_DataFrame security_keys rs) = Inr tab"
    unfolding tab_def by (rule detect_port_scanning_eq[OF assms])
  have mem: "(a, n) \<in> set tab \<longleftrightarrow> syn a \<and> n = card (ports a) \<and> thr \<le> int n" for a n
    unfolding tab_def syn_def ports_def by (rule syn_scanners_mem)
  have syn: "syn a" if "ports a \<noteq> {}" for a
    using that unfolding syn_def ports_def by blast
  have pos: "a \<in> fst ` set tab \<longleftrightarrow> thr \<le> int (card (ports a))" if "0 < thr" for a
  proof
    assume "a \<in> fst ` set tab"
    then obtain x where "a = fst x" "x \<in> set tab" by (rule imageE)
    then have m: "(a, snd x) \<in> set tab" by (metis prod.collapse)
    have "syn a \<and> snd x = card (ports a) \<and> thr \<le> int (snd x)"
      using mem[of a "snd x", THEN iffD1, OF m] .
    then show "thr \<le> int (card (ports a))" by simp
  next
    assume le: "thr \<le> int (card (ports a))"
    with that have "card (ports a) \<noteq> 0" by linarith
    then have "ports a \<noteq> {}" by auto
    then have "syn a" by (rule syn)
    then have "(a, card (ports a)) \<in> set tab"
      using le by (intro mem[of a "card (ports a)", THEN iffD2] conjI refl)
    then have "fst (a, card (ports a)) \<in> fst ` set tab" by (rule imageI)
    then show "a \<in> fst ` set tab" by (simp only: fst_conv)
  qed
  have all1: "\<forall>a n. (a, n) \<in> set tab \<longleftrightarrow> syn a \<and> n = card (ports a) \<and> thr \<le> int n"
    by (intro allI) (rule mem)
  have all2: "0 < thr \<longrightarrow> (\<forall>a. a \<in> fst ` set tab \<longleftrightarrow> thr \<le> int (card (ports a)))"
    by (intro impI allI) (rule pos)
  have "\<exists>t. detect_port_scanning thr (pd_DataFrame security_keys rs) = Inr t \<and>
        (\<forall>a n. (a, n) \<in> set t \<longleftrightarrow> syn a \<and> n = card (ports a) \<and> thr \<le> int n) \<and>
        (0 < thr \<longrightarrow> (\<forall>a. a \<in> fst ` set t \<longleftrightarrow> thr \<le> int (card (ports a))))"
    by (rule exI[of _ tab]) (intro conjI eq all1 all2)
  then show ?thesis
    unfolding syn_def ports_def .
qed


theorem detect_port_scanning_distinct_ports_witness:
  "scan_rows \<noteq> [] \<and> (0::int) < 2 \<and>
   detect_port_scanning 2 (pd_DataFrame security_keys scan_rows) = Inr [(''2.2.2.2'', 2)] \<and>
   (\<forall>a. a \<in> fst ` set [(''2.2.2.2'', 2::nat)] \<longleftrightarrow>
      2 \<le> int (card (dst_port ` {r \<in> set scan_rows.
                src_ip r = a \<and> protocol r = 6 \<and> CHR ''S'' \<in> set (tcp_flags r)})))"
proof -
  have ne: "scan_rows \<noteq> []" by (simp add: scan_rows_def)
  have ev: "detect_port_scanning 2 (pd_DataFrame security_keys scan_rows) = Inr [(''2.2.2.2'', 2)]"
    by (simp add: detect_port_scanning_def pd_DataFrame_def security_keys_def groupby_size_def
        syn_probe_def scan_rows_def)
  from detect_port_scanning_distinct_ports[OF ne, of 2]
  obtain tab where tab: "detect_port_scanning 2 (pd_DataFrame security_keys scan_rows) = Inr tab"
    and iff: "0 < (2::int) \<longrightarrow> (\<forall>a. a \<in> fst ` set tab \<longleftrightarrow>
      2 \<le> int (card (dst_port ` {r \<in> set scan_rows.
                src_ip r = a \<and> protocol r = 6 \<and> CHR ''S'' \<in> set (tcp_flags r)})))"
    by (elim exE conjE)
  from tab ev have "tab = [(''2.2.2.2'', 2)]" by simp
  with iff have "\<forall>a. a \<in> fst ` set [(''2.2.2.2'', 2::nat)] \<longleftrightarrow>
      2 \<le> int (card (dst_port ` {r \<in> set scan_rows.
                src_ip r = a \<and> protocol r = 6 \<and> CHR ''S'' \<in> set (tcp_flags r)}))"
    by simp
  with ne ev show ?thesis by (intro conjI) simp_all
qed

section \<open>Terminal failures of the pipeline\<close>

lemma extract_packet_data_none:
  assumes "\<forall>p \<in> set ps. process_packet p = None"
  shows "extract_packet_data ps = ([NoValidIPPackets], Inl (SystemExit 1))"
proof -
  have "concat (map (\<lambda>r. case r of None \<Rightarrow> [] | Some x \<Rightarrow> [x]) (map process_packet ps)) = []"
    using assms by (induction ps) simp_all
  then show ?thesis
    by (simp add: extract_packet_data_def pd_DataFrame_def empty_df_def)
qed

lemma extract_packet_data_Inr:
  assumes "extract_packet_data ps = (l, Inr df)"
  shows "\<exists>p \<in> set ps. process_packet p \<noteq> None"
proof (rule ccontr)
  assume "\<not> (\<exists>p \<in> set ps. process_packet p \<noteq> None)"
  then have "\<forall>p \<in> set ps. process_packet p = None" by simp
  from extract_packet_data_none[OF this] assms show False by simp
qed

lemma run_Inr:
  assumes "run f pm thr cap = (l, Inr res)"
  shows "\<exists>ps. cap = Capture ps \<and> ps \<noteq> [] \<and> (\<exists>p \<in> set ps. process_packet p \<noteq> None)"
proof (cases cap)
  case Missing
  with assms show ?thesis by (simp add: run_def read_pcap_def)
next
  case (Unreadable e)
  with assms show ?thesis by (simp add: run_def read_pcap_def)
next
  case (Capture ps)
  show ?thesis
  proof (cases "ps = []")
    case True
    with assms Capture show ?thesis by (simp add: run_def read_pcap_def)
  next
    case False
    obtain l2 r2 where e: "extract_packet_data ps = (l2, r2)" by (cases "extract_packet_data ps")
    from assms Capture False e obtain df where "r2 = Inr df"
      by (cases r2) (simp_all add: run_def read_pcap_def)
    with e have "\<exists>p \<in> set ps. process_packet p \<noteq> None"
      using extract_packet_data_Inr by blast
    with Capture False show ?thesis by simp
  qed
qed

text \<open>
  C6 (as amended). An empty capture ends the run with \<^verbatim>\<open>SystemExit(1)\<close> after the
  message that no packets were found. A capture that is not empty and has no packet
  that \<open>process_packet\<close> accepts ends the run with \<^verbatim>\<open>SystemExit(1)\<close> as well, raised by
  \<open>extract_packet_data\<close>, before the aggregation, after the message that no valid IP
  packets were found. The exception is the same; the logged message tells the two
  apart. A run that returns a value had a packet that was accepted.
\<close>

theorem pipeline_terminal_failures:
  "run f pm thr (Capture []) = ([NoPacketsFound f, EnsureValidPcap], Inl (SystemExit 1)) \<and>
   (ps \<noteq> [] \<and> (\<forall>p \<in> set ps. process_packet p = None) \<longrightarrow>
      extract_packet_data ps = ([NoValidIPPackets], Inl (SystemExit 1)) \<and>
      run f pm thr (Capture ps) = ([NoValidIPPackets], Inl (SystemExit 1))) \<and>
   (run f pm thr cap = (l, Inr res) \<longrightarrow>
      (\<exists>qs. cap = Capture qs \<and> qs \<noteq> [] \<and> (\<exists>p \<in> set qs. process_packet p \<noteq> None)))"
proof (intro conjI impI)
  show "run f pm thr (Capture []) = ([NoPacketsFound f, EnsureValidPcap], Inl (SystemExit 1))"
    by (simp add: run_def read_pcap_def)
next
  assume a: "ps \<noteq> [] \<and> (\<forall>p \<in> set ps. process_packet p = None)"
  then show e: "extract_packet_data ps = ([NoValidIPPackets], Inl (SystemExit 1))"
    by (simp add: extract_packet_data_none)
  from a show "run f pm thr (Capture ps) = ([NoValidIPPackets], Inl (SystemExit 1))"
    by (simp add: run_def read_pcap_def e)
next
  assume "run f pm thr cap = (l, Inr res)"
  then show "\<exists>qs. cap = Capture qs \<and> qs \<noteq> [] \<and> (\<exists>p \<in> set qs. process_packet p \<noteq> None)"
    by (rule run_Inr)
qed

theorem pipeline_terminal_failures_witness:
  "[arp_packet] \<noteq> [] \<and> process_packet arp_packet = None \<and>
   run ''one.pcap'' protocol_dict 100 (Capture [arp_packet]) = ([NoValidIPPackets], Inl (SystemExit 1)) \<and>
   (\<exists>res. run ''one.pcap'' protocol_dict 100 (Capture capture_rows) = ([], Inr res)) \<and>
   (\<exists>p \<in> set capture_rows. process_packet p \<noteq> None)"
proof -
  have h: "[arp_packet] \<noteq> [] \<and> (\<forall>p \<in> set [arp_packet]. process_packet p = None)"
    by (simp add: process_packet_def arp_packet_def)
  have v: "is_valid_ip ''192.168.1.10''" "is_valid_ip ''10.0.0.255''"
    by (simp_all add: ip_eval)
  have r: "\<exists>res. run ''one.pcap'' protocol_dict 100 (Capture capture_rows) = ([], Inr res)"
    by (simp add: run_def read_pcap_def extract_packet_data_def process_packet_def v
        capture_rows_def tcp_packet_def arp_packet_def pd_DataFrame_def empty_df_def
        general_keys_def security_keys_def extract_security_data_def analyze_packet_data_def
        detect_port_scanning_def detect_ddos_def Let_def)
  then obtain res where res: "run ''one.pcap'' protocol_dict 100 (Capture capture_rows) = ([], Inr res)" ..
  note t = pipeline_terminal_failures[of "''one.pcap''" protocol_dict 100 "[arp_packet]" "Capture capture_rows" "[]" res]
  from t[THEN conjunct2, THEN conjunct1, THEN mp, OF h]
  have a: "run ''one.pcap'' protocol_dict 100 (Capture [arp_packet]) = ([NoValidIPPackets], Inl (SystemExit 1))"
    by (rule conjunct2)
  from t[THEN conjunct2, THEN conjunct2, THEN mp, OF res]
  have b: "\<exists>p \<in> set capture_rows. process_packet p \<noteq> None" by simp
  from h have h': "[arp_packet] \<noteq> [] \<and> process_packet arp_packet = None" by simp
  from h' a r b show ?thesis by (intro conjI) simp_all
qed

text \<open>
  C6 as it is stated: the empty capture and the capture with one ARP frame end with
  the same exception, so the failure that reaches the caller is not distinct.
\<close>

theorem pipeline_terminal_failures_counterexample:
  "snd (run ''one.pcap'' protocol_dict 100 (Capture [])) = Inl (SystemExit 1) \<and>
   snd (run ''one.pcap'' protocol_dict 100 (Capture [arp_packet])) = Inl (SystemExit 1)"
  by (simp add: run_def read_pcap_def extract_packet_data_def process_packet_def arp_packet_def
      pd_DataFrame_def empty_df_def)

section \<open>Shares of the protocols between host pairs\<close>

lemma sum_list_percent:
  "sum_list (map (\<lambda>x. real (f x) / t * 100) xs) = real (sum_list (map f xs)) / t * 100"
  by (induction xs) (simp_all add: add_divide_distrib distrib_right)

lemma groupby_size_count_pos:
  assumes "(k, n) \<in> set (groupby_size key rs)"
  shows "0 < n"
proof -
  from assms have k: "k \<in> key ` set rs" and n: "n = length (filter (\<lambda>r. key r = k) rs)"
    unfolding groupby_size_mem by simp_all
  from k obtain r where "r \<in> set rs" "key r = k" by (rule imageE) simp
  then have "r \<in> set (filter (\<lambda>r. key r = k) rs)" by simp
  then have "filter (\<lambda>r. key r = k) rs \<noteq> []" by (rule_tac notI) simp
  with n show ?thesis by simp
qed

lemma sum_list_pos_member:
  fixes xs :: "nat list"
  assumes "x \<in> set xs" and "0 < x"
  shows "0 < sum_list xs"
  using assms by (induction xs) auto


lemma sum_counts_over_keys:
  assumes "finite K" and "key ` set rs \<subseteq> K"
  shows "(\<Sum>k \<in> {k \<in> K. Q k}. length (filter (\<lambda>r. key r = k) rs)) = length (filter (\<lambda>r. Q (key r)) rs)"
  using assms(2)
proof (induction rs)
  case Nil
  then show ?case by simp
next
  case (Cons x rs)
  then have ih: "(\<Sum>k \<in> {k \<in> K. Q k}. length (filter (\<lambda>r. key r = k) rs)) = length (filter (\<lambda>r. Q (key r)) rs)"
    and x: "key x \<in> K" by simp_all
  have fin: "finite {k \<in> K. Q k}" using assms(1) by simp
  have "(\<Sum>k \<in> {k \<in> K. Q k}. length (filter (\<lambda>r. key r = k) (x # rs))) =
        (\<Sum>k \<in> {k \<in> K. Q k}. (if key x = k then 1 else 0) + length (filter (\<lambda>r. key r = k) rs))"
    by (rule sum.cong) simp_all
  also have "\<dots> = (\<Sum>k \<in> {k \<in> K. Q k}. if key x = k then 1 else 0) +
        (\<Sum>k \<in> {k \<in> K. Q k}. length (filter (\<lambda>r. key r = k) rs))"
    by (rule sum.distrib)
  also have "(\<Sum>k \<in> {k \<in> K. Q k}. if key x = k then 1 else 0) = (if Q (key x) then 1 else (0::nat))"
    using fin x by (simp add: sum.delta')
  finally show ?case using ih by simp
qed

lemma sum_counts_filter:
  "sum_list (map snd (filter (\<lambda>kc. Q (fst kc)) (groupby_size key rs))) =
     length (filter (\<lambda>r. Q (key r)) rs)"
proof -
  let ?ks = "sort (remdups (map key rs))"
  let ?cnt = "\<lambda>k. length (filter (\<lambda>r. key r = k) rs)"
  have "filter (\<lambda>kc. Q (fst kc)) (groupby_size key rs) = map (\<lambda>k. (k, ?cnt k)) (filter Q ?ks)"
    by (simp add: groupby_size_def filter_map comp_def)
  then have "sum_list (map snd (filter (\<lambda>kc. Q (fst kc)) (groupby_size key rs))) =
      sum_list (map ?cnt (filter Q ?ks))"
    by (simp add: comp_def)
  also have "\<dots> = sum ?cnt (set (filter Q ?ks))"
    by (rule sum_list_distinct_conv_sum_set) simp
  also have "set (filter Q ?ks) = {k \<in> key ` set rs. Q k}"
    by auto
  also have "sum ?cnt {k \<in> key ` set rs. Q k} = length (filter (\<lambda>r. Q (key r)) rs)"
    by (rule sum_counts_over_keys) simp_all
  finally show ?thesis .
qed

lemma transform_sum_count:
  "transform_sum (groupby_size (\<lambda>r. (f r, g r, h r)) rs) (s, d) =
     length (filter (\<lambda>r. f r = s \<and> g r = d) rs)"
proof -
  have "transform_sum (groupby_size (\<lambda>r. (f r, g r, h r)) rs) (s, d) =
      sum_list (map snd (filter (\<lambda>kc. (\<lambda>k. fst k = s \<and> fst (snd k) = d) (fst kc))
         (groupby_size (\<lambda>r. (f r, g r, h r)) rs)))"
    by (simp add: transform_sum_def)
  also have "\<dots> = length (filter (\<lambda>r. (\<lambda>k. fst k = s \<and> fst (snd k) = d) (f r, g r, h r)) rs)"
    by (rule sum_counts_filter)
  finally show ?thesis by simp
qed


lemma analyze_protocols_eq:
  assumes "rs \<noteq> []"
  shows "\<exists>a. analyze_packet_data pm (pd_DataFrame general_keys rs) = Inr a \<and>
     ip_communication_protocols a =
       map (\<lambda>kc. (fst kc, snd kc,
              real (snd kc) /
              real (length (filter (\<lambda>x. src_ip x = fst (fst kc) \<and> dst_ip x = fst (snd (fst kc))) rs)) * 100))
         (groupby_size (\<lambda>x. (src_ip x, dst_ip x, protocol_name pm (protocol x))) rs)"
  using assms
  by (simp add: analyze_packet_data_def general_keys_def Let_def case_prod_beta transform_sum_count)

lemma pair_shares_sum:
  assumes "r \<in> set rs"
  shows "sum_list (map (\<lambda>row. snd (snd row))
      (filter (\<lambda>row. fst (fst row) = src_ip r \<and> fst (snd (fst row)) = dst_ip r)
        (map (\<lambda>kc. (fst kc, snd kc,
              real (snd kc) /
              real (length (filter (\<lambda>x. src_ip x = fst (fst kc) \<and> dst_ip x = fst (snd (fst kc))) rs)) * 100))
         (groupby_size (\<lambda>x. (src_ip x, dst_ip x, h x)) rs)))) = 100"
proof -
  define bp where "bp = groupby_size (\<lambda>x. (src_ip x, dst_ip x, h x)) rs"
  define t where "t = length (filter (\<lambda>x. src_ip x = src_ip r \<and> dst_ip x = dst_ip r) rs)"
  define sel where "sel = filter (\<lambda>kc. (\<lambda>k. fst k = src_ip r \<and> fst (snd k) = dst_ip r) (fst kc)) bp"
  have "r \<in> set (filter (\<lambda>x. src_ip x = src_ip r \<and> dst_ip x = dst_ip r) rs)"
    using assms by simp
  then have "filter (\<lambda>x. src_ip x = src_ip r \<and> dst_ip x = dst_ip r) rs \<noteq> []"
    by (rule_tac notI) simp
  then have tpos: "0 < t" by (simp add: t_def)
  have total: "sum_list (map snd sel) = t"
    unfolding sel_def bp_def t_def by (rule sum_counts_filter[THEN trans]) simp
  have "map (\<lambda>row. snd (snd row))
      (filter (\<lambda>row. fst (fst row) = src_ip r \<and> fst (snd (fst row)) = dst_ip r)
        (map (\<lambda>kc. (fst kc, snd kc,
              real (snd kc) /
              real (length (filter (\<lambda>x. src_ip x = fst (fst kc) \<and> dst_ip x = fst (snd (fst kc))) rs)) * 100))
         bp)) =
     map (\<lambda>kc. real (snd kc) /
              real (length (filter (\<lambda>x. src_ip x = fst (fst kc) \<and> dst_ip x = fst (snd (fst kc))) rs)) * 100) sel"
    by (simp add: filter_map comp_def sel_def)
  also have "\<dots> = map (\<lambda>kc. real (snd kc) / real t * 100) sel"
    by (rule map_cong) (simp_all add: sel_def t_def)
  finally have "sum_list (map (\<lambda>row. snd (snd row))
      (filter (\<lambda>row. fst (fst row) = src_ip r \<and> fst (snd (fst row)) = dst_ip r)
        (map (\<lambda>kc. (fst kc, snd kc,
              real (snd kc) /
              real (length (filter (\<lambda>x. src_ip x = fst (fst kc) \<and> dst_ip x = fst (snd (fst kc))) rs)) * 100))
         bp))) = sum_list (map (\<lambda>kc. real (snd kc) / real t * 100) sel)"
    by (rule arg_cong)
  also have "\<dots> = real (sum_list (map snd sel)) / real t * 100"
    by (rule sum_list_percent)
  also have "\<dots> = 100"
    using tpos by (simp add: total)
  finally show ?thesis
    unfolding bp_def .
qed

text \<open>
  C7. For a non-empty set of general-traffic records, each row of the per-protocol
  host-pair table has as its percentage its count divided by the number of records of
  its own (source, destination) pair, times 100; and for every pair that occurs in the
  records, the percentages of the rows of that pair sum to 100. (The percentages are
  real numbers here, so the sum is exactly 100.)
\<close>

theorem host_pair_protocol_shares:
  assumes "r \<in> set rs"
  shows "\<exists>a. analyze_packet_data pm (pd_DataFrame general_keys rs) = Inr a \<and>
     (\<forall>row \<in> set (ip_communication_protocols a).
        snd (snd row) =
          real (fst (snd row)) /
          real (length (filter (\<lambda>x. src_ip x = fst (fst row) \<and> dst_ip x = fst (snd (fst row))) rs)) * 100) \<and>
     sum_list (map (\<lambda>row. snd (snd row))
       (filter (\<lambda>row. fst (fst row) = src_ip r \<and> fst (snd (fst row)) = dst_ip r)
          (ip_communication_protocols a))) = 100"
proof -
  from assms have "rs \<noteq> []" by (rule_tac notI) simp
  from analyze_protocols_eq[OF this, of pm] obtain a
    where a: "analyze_packet_data pm (pd_DataFrame general_keys rs) = Inr a"
      and t: "ip_communication_protocols a =
       map (\<lambda>kc. (fst kc, snd kc,
              real (snd kc) /
              real (length (filter (\<lambda>x. src_ip x = fst (fst kc) \<and> dst_ip x = fst (snd (fst kc))) rs)) * 100))
         (groupby_size (\<lambda>x. (src_ip x, dst_ip x, protocol_name pm (protocol x))) rs)"
    by (elim exE conjE)
  have p1: "\<forall>row \<in> set (ip_communication_protocols a).
        snd (snd row) =
          real (fst (snd row)) /
          real (length (filter (\<lambda>x. src_ip x = fst (fst row) \<and> dst_ip x = fst (snd (fst row))) rs)) * 100"
    unfolding t by simp
  have p2: "sum_list (map (\<lambda>row. snd (snd row))
       (filter (\<lambda>row. fst (fst row) = src_ip r \<and> fst (snd (fst row)) = dst_ip r)
          (ip_communication_protocols a))) = 100"
    unfolding t by (rule pair_shares_sum[OF assms])
  show ?thesis
    by (rule exI[of _ a]) (intro conjI a p1 p2)
qed

theorem host_pair_protocol_shares_witness:
  "flow_row ''1.1.1.1'' ''2.2.2.2'' 6 \<in> set general_rows \<and>
   (\<exists>a. analyze_packet_data protocol_dict (pd_DataFrame general_keys general_rows) = Inr a \<and>
      ip_communication_protocols a =
        [((''1.1.1.1'', ''2.2.2.2'', ''TCP''), 2, 200 / 3),
         ((''1.1.1.1'', ''2.2.2.2'', ''UDP''), 1, 100 / 3),
         ((''3.3.3.3'', ''2.2.2.2'', ''ICMP''), 1, 100)] \<and>
      sum_list (map (\<lambda>row. snd (snd row))
        (filter (\<lambda>row. fst (fst row) = ''1.1.1.1'' \<and> fst (snd (fst row)) = ''2.2.2.2'')
           (ip_communication_protocols a))) = 100)"
proof -
  have m: "flow_row ''1.1.1.1'' ''2.2.2.2'' 6 \<in> set general_rows"
    by (simp add: general_rows_def)
  have ne: "general_rows \<noteq> []"
    by (simp add: general_rows_def)
  have s: "src_ip (flow_row ''1.1.1.1'' ''2.2.2.2'' 6) = ''1.1.1.1''"
    "dst_ip (flow_row ''1.1.1.1'' ''2.2.2.2'' 6) = ''2.2.2.2''"
    by (simp_all add: flow_row_def)
  from host_pair_protocol_shares[OF m, of protocol_dict] obtain a
    where a: "analyze_packet_data protocol_dict (pd_DataFrame general_keys general_rows) = Inr a \<and>
     (\<forall>row \<in> set (ip_communication_protocols a).
        snd (snd row) =
          real (fst (snd row)) /
          real (length (filter (\<lambda>x. src_ip x = fst (fst row) \<and> dst_ip x = fst (snd (fst row))) general_rows)) * 100) \<and>
     sum_list (map (\<lambda>row. snd (snd row))
       (filter (\<lambda>row. fst (fst row) = src_ip (flow_row ''1.1.1.1'' ''2.2.2.2'' 6) \<and>
                      fst (snd (fst row)) = dst_ip (flow_row ''1.1.1.1'' ''2.2.2.2'' 6))
          (ip_communication_protocols a))) = 100" ..
  from a have a1: "analyze_packet_data protocol_dict (pd_DataFrame general_keys general_rows) = Inr a"
    by (rule conjunct1)
  from a have "sum_list (map (\<lambda>row. snd (snd row))
       (filter (\<lambda>row. fst (fst row) = src_ip (flow_row ''1.1.1.1'' ''2.2.2.2'' 6) \<and>
                      fst (snd (fst row)) = dst_ip (flow_row ''1.1.1.1'' ''2.2.2.2'' 6))
          (ip_communication_protocols a))) = 100"
    by (rule conjunct2[THEN conjunct2])
  then have sm: "sum_list (map (\<lambda>row. snd (snd row))
        (filter (\<lambda>row. fst (fst row) = ''1.1.1.1'' \<and> fst (snd (fst row)) = ''2.2.2.2'')
           (ip_communication_protocols a))) = 100"
    unfolding s .
  from analyze_protocols_eq[OF ne, of protocol_dict] obtain b
    where b: "analyze_packet_data protocol_dict (pd_DataFrame general_keys general_rows) = Inr b \<and>
     ip_communication_protocols b =
       map (\<lambda>kc. (fst kc, snd kc,
              real (snd kc) /
              real (length (filter (\<lambda>x. src_ip x = fst (fst kc) \<and> dst_ip x = fst (snd (fst kc))) general_rows)) * 100))
         (groupby_size (\<lambda>x. (src_ip x, dst_ip x, protocol_name protocol_dict (protocol x))) general_rows)" ..
  from b a1 have "b = a" by simp
  with b have "ip_communication_protocols a =
       map (\<lambda>kc. (fst kc, snd kc,
              real (snd kc) /
              real (length (filter (\<lambda>x. src_ip x = fst (fst kc) \<and> dst_ip x = fst (snd (fst kc))) general_rows)) * 100))
         (groupby_size (\<lambda>x. (src_ip x, dst_ip x, protocol_name protocol_dict (protocol x))) general_rows)"
    by simp
  also have "\<dots> = [((''1.1.1.1'', ''2.2.2.2'', ''TCP''), 2, 200 / 3),
         ((''1.1.1.1'', ''2.2.2.2'', ''UDP''), 1, 100 / 3),
         ((''3.3.3.3'', ''2.2.2.2'', ''ICMP''), 1, 100)]"
    by (simp add: general_rows_def flow_row_def groupby_size_def protocol_name_def protocol_dict_def)
  finally have ev: "ip_communication_protocols a =
        [((''1.1.1.1'', ''2.2.2.2'', ''TCP''), 2, 200 / 3),
         ((''1.1.1.1'', ''2.2.2.2'', ''UDP''), 1, 100 / 3),
         ((''3.3.3.3'', ''2.2.2.2'', ''ICMP''), 1, 100)]" .
  show ?thesis
    by (intro conjI m exI[of _ a] a1 ev sm)
qed

section \<open>Independence of the order of the records\<close>

lemma sort_values_desc_map_of:
  assumes "distinct (map fst kcs)"
  shows "map_of (sort_values_desc kcs) = map_of kcs"
proof -
  have m: "mset (sort_values_desc kcs) = mset kcs"
    by (simp add: sort_values_desc_def)
  then have "mset (map fst (sort_values_desc kcs)) = mset (map fst kcs)"
    by (metis mset_map)
  then have "distinct (map fst (sort_values_desc kcs))"
    using assms by (metis mset_eq_imp_distinct_iff)
  moreover have "set (sort_values_desc kcs) = set kcs"
    using m by (rule mset_eq_setD)
  ultimately show ?thesis
    using assms by (simp add: map_of_inject_set)
qed

lemma value_counts_perm:
  assumes "mset xs' = mset xs"
  shows "map_of (value_counts xs') = map_of (value_counts xs)"
proof -
  let ?g = "\<lambda>ys k. (k, length (filter (\<lambda>x. x = k) ys))"
  have cnt: "?g xs' = ?g xs"
  proof
    fix k
    have "length (filter (\<lambda>x. x = k) xs') = length (filter (\<lambda>x. x = k) xs)"
      using assms by (metis mset_filter size_mset)
    then show "?g xs' k = ?g xs k" by simp
  qed
  have st: "set xs' = set xs" using assms by (rule mset_eq_setD)
  have d: "distinct (map fst (map (?g ys) (unique ys)))" for ys :: "'a list"
    by (simp add: comp_def unique_def)
  have "map_of (value_counts xs') = map_of (map (?g xs') (unique xs'))"
    unfolding value_counts_def by (rule sort_values_desc_map_of[OF d])
  also have "\<dots> = map_of (map (?g xs) (unique xs))"
    using d[of xs'] d[of xs] by (simp add: map_of_inject_set cnt unique_def st)
  also have "\<dots> = map_of (value_counts xs)"
    unfolding value_counts_def by (rule sort_values_desc_map_of[OF d, symmetric])
  finally show ?thesis .
qed

lemma perm_Nil_iff:
  assumes "mset xs' = mset xs"
  shows "xs' = [] \<longleftrightarrow> xs = []"
  using assms by (metis mset_zero_iff)

lemma analyze_packet_data_perm:
  assumes "mset rs' = mset rs"
  shows "map_sum id as_mappings (analyze_packet_data pm (pd_DataFrame general_keys rs')) =
         map_sum id as_mappings (analyze_packet_data pm (pd_DataFrame general_keys rs))"
proof (cases "rs = []")
  case True
  with assms have "rs' = []" by simp
  with True show ?thesis by simp
next
  case False
  with assms have ne: "rs' \<noteq> []" using perm_Nil_iff by blast
  have m: "mset (map (\<lambda>r. protocol_name pm (protocol r)) rs') =
           mset (map (\<lambda>r. protocol_name pm (protocol r)) rs)"
    using assms by (metis mset_map)
  show ?thesis
    using False ne
    by (simp add: analyze_packet_data_def general_keys_def Let_def as_mappings_def
        groupby_size_perm[OF assms] value_counts_perm[OF m])
qed

lemma detect_port_scanning_perm:
  assumes "mset ss' = mset ss"
  shows "detect_port_scanning thr (pd_DataFrame security_keys ss') =
         detect_port_scanning thr (pd_DataFrame security_keys ss)"
proof (cases "ss = []")
  case True
  with assms have "ss' = []" by simp
  with True show ?thesis by simp
next
  case False
  with assms have ne: "ss' \<noteq> []" using perm_Nil_iff by blast
  have m: "mset (filter (\<lambda>r. protocol r = 6 \<and> CHR ''S'' \<in> set (tcp_flags r)) ss') =
           mset (filter (\<lambda>r. protocol r = 6 \<and> CHR ''S'' \<in> set (tcp_flags r)) ss)"
    using assms by (metis mset_filter)
  show ?thesis
    unfolding detect_port_scanning_eq[OF False] detect_port_scanning_eq[OF ne]
      groupby_size_perm[OF m] ..
qed


section \<open>Flood detection\<close>

lemma detect_ddos_eq:
  assumes "rs \<noteq> []"
  shows "detect_ddos thr (pd_DataFrame security_keys rs) =
     (if float_sub (Max (time ` set rs)) (Min (time ` set rs)) = Finite 0 then Inr []
      else Inr (map fst
             (filter (\<lambda>ipn. float_less (round64 thr)
                        (float_div (snd ipn) (float_sub (Max (time ` set rs)) (Min (time ` set rs)))))
                (groupby_size dst_ip rs))))"
proof -
  from assms obtain r rs' where rs: "rs = r # rs'" by (cases rs) auto
  have mx: "fold max (map time rs') (time r) = Max (time ` set rs)"
    using Max.set_eq_fold[of "time r" "map time rs'"] by (simp add: rs)
  have mn: "fold min (map time rs') (time r) = Min (time ` set rs)"
    using Min.set_eq_fold[of "time r" "map time rs'"] by (simp add: rs)
  have "detect_ddos thr (pd_DataFrame security_keys rs) =
     (let time_span = float_sub (fold max (map time rs') (time r)) (fold min (map time rs') (time r)) in
             if time_span = Finite 0 then Inr []
             else Inr (map fst (filter (\<lambda>ipn. float_less (round64 thr) (float_div (snd ipn) time_span))
                          (groupby_size dst_ip rs))))"
    by (simp add: detect_ddos_def security_keys_def pd_DataFrame_def rs Let_def)
  then show ?thesis
    unfolding mx mn Let_def .
qed

lemma ddos_targets_mem:
  "b \<in> set (map fst (filter (\<lambda>ipn. P (snd ipn)) (groupby_size dst_ip rs))) \<longleftrightarrow>
     b \<in> dst_ip ` set rs \<and> P (length (filter (\<lambda>r. dst_ip r = b) rs))"
proof
  assume "b \<in> set (map fst (filter (\<lambda>ipn. P (snd ipn)) (groupby_size dst_ip rs)))"
  then obtain x where x: "b = fst x" "x \<in> set (groupby_size dst_ip rs)" "P (snd x)"
    by auto
  from x(1,2) have "(b, snd x) \<in> set (groupby_size dst_ip rs)" by simp
  then have "b \<in> dst_ip ` set rs" "snd x = length (filter (\<lambda>r. dst_ip r = b) rs)"
    unfolding groupby_size_mem by simp_all
  with x(3) show "b \<in> dst_ip ` set rs \<and> P (length (filter (\<lambda>r. dst_ip r = b) rs))"
    by simp
next
  assume a: "b \<in> dst_ip ` set rs \<and> P (length (filter (\<lambda>r. dst_ip r = b) rs))"
  then have "(b, length (filter (\<lambda>r. dst_ip r = b) rs)) \<in> set (groupby_size dst_ip rs)"
    unfolding groupby_size_mem by simp
  with a have "(b, length (filter (\<lambda>r. dst_ip r = b) rs)) \<in>
      set (filter (\<lambda>ipn. P (snd ipn)) (groupby_size dst_ip rs))"
    by simp
  then have "fst (b, length (filter (\<lambda>r. dst_ip r = b) rs)) \<in>
      fst ` set (filter (\<lambda>ipn. P (snd ipn)) (groupby_size dst_ip rs))"
    by (rule imageI)
  then show "b \<in> set (map fst (filter (\<lambda>ipn. P (snd ipn)) (groupby_size dst_ip rs)))"
    by simp
qed

lemma pow2_pos: "0 < pow2 e"
  by (simp add: pow2_def)

lemma round_half_even_nonneg: "0 \<le> y \<Longrightarrow> 0 \<le> round_half_even y"
proof -
  assume "0 \<le> y"
  then have "0 \<le> \<lfloor>y\<rfloor>" by simp
  then show ?thesis by (simp add: round_half_even_def Let_def)
qed

lemma round64_nonneg:
  assumes "0 \<le> x"
  shows "round64 x = PlusInf \<or> (\<exists>t. 0 \<le> t \<and> round64 x = Finite t)"
proof (cases "x = 0")
  case True
  then show ?thesis by (simp add: round64_def)
next
  case False
  with assms have pos: "0 < x" by simp
  define q where "q = pow2 (max (floor_log2 \<bar>x\<bar> - 52) (- 1074))"
  define r where "r = real_of_int (round_half_even (x / q)) * q"
  have q: "0 < q" unfolding q_def by (rule pow2_pos)
  with pos have "0 \<le> x / q" by simp
  then have "0 \<le> round_half_even (x / q)" by (rule round_half_even_nonneg)
  with q have r: "0 \<le> r" unfolding r_def by simp
  have "round64 x = (if 2 ^ 1024 \<le> \<bar>r\<bar> then PlusInf else Finite r)"
    using False pos by (simp add: round64_def Let_def q_def r_def)
  with r show ?thesis by (cases "2 ^ 1024 \<le> \<bar>r\<bar>") auto
qed

lemma float_div_zero: "float_div 0 t = Finite 0 \<or> float_div 0 t = NaN"
  by (cases t) (simp_all add: float_div_def round64_def)

lemma not_less_zero_rate:
  assumes "0 \<le> thr"
  shows "\<not> float_less (round64 thr) (float_div 0 t)"
proof -
  from round64_nonneg[OF assms] have a: "\<not> float_less (round64 thr) (Finite 0)"
    by auto
  have b: "\<not> float_less (round64 thr) NaN"
    by (cases "round64 thr") simp_all
  from float_div_zero[of t] a b show ?thesis by auto
qed

lemma no_records_no_rate:
  assumes "b \<notin> dst_ip ` set rs" and "0 \<le> thr"
  shows "\<not> float_less (round64 thr) (float_div (length (filter (\<lambda>r. dst_ip r = b) rs)) t)"
proof -
  have "filter (\<lambda>r. dst_ip r = b) rs = []"
    using assms(1) by (auto simp: filter_empty_conv)
  then show ?thesis using not_less_zero_rate[OF assms(2)] by simp
qed

text \<open>
  C3. On a non-empty set of security records, with \<open>time_span\<close> the float64 difference
  of the largest and the smallest timestamp: when \<open>time_span\<close> is zero, flood
  detection returns the empty result and no exception; otherwise it returns the
  destination addresses of the records for which the number of records with that
  destination, divided by \<open>time_span\<close> in float64, is greater than the threshold.
  For a threshold that is not negative these are all addresses with such a rate.
\<close>

theorem detect_ddos_rate:
  assumes "rs \<noteq> []"
    and "time_span = float_sub (Max (time ` set rs)) (Min (time ` set rs))"
  shows "(time_span = Finite 0 \<longrightarrow> detect_ddos thr (pd_DataFrame security_keys rs) = Inr []) \<and>
     (time_span \<noteq> Finite 0 \<longrightarrow>
        (\<exists>ts. detect_ddos thr (pd_DataFrame security_keys rs) = Inr ts \<and>
           (\<forall>b. b \<in> set ts \<longleftrightarrow>
              b \<in> dst_ip ` set rs \<and>
              float_less (round64 thr) (float_div (length (filter (\<lambda>r. dst_ip r = b) rs)) time_span)) \<and>
           (0 \<le> thr \<longrightarrow>
              (\<forall>b. b \<in> set ts \<longleftrightarrow>
                 float_less (round64 thr) (float_div (length (filter (\<lambda>r. dst_ip r = b) rs)) time_span)))))"
proof (intro conjI impI)
  assume "time_span = Finite 0"
  then show "detect_ddos thr (pd_DataFrame security_keys rs) = Inr []"
    unfolding detect_ddos_eq[OF assms(1)] assms(2) by simp
next
  assume nz: "time_span \<noteq> Finite 0"
  define ts where "ts = map fst (filter (\<lambda>ipn. float_less (round64 thr) (float_div (snd ipn) time_span))
      (groupby_size dst_ip rs))"
  have eq: "detect_ddos thr (pd_DataFrame security_keys rs) = Inr ts"
    using nz unfolding detect_ddos_eq[OF assms(1)] ts_def assms(2) by simp
  have mem: "\<forall>b. b \<in> set ts \<longleftrightarrow>
              b \<in> dst_ip ` set rs \<and>
              float_less (round64 thr) (float_div (length (filter (\<lambda>r. dst_ip r = b) rs)) time_span)"
    unfolding ts_def
    by (intro allI) (rule ddos_targets_mem[of _ "\<lambda>n. float_less (round64 thr) (float_div n time_span)"])
  have nonneg: "0 \<le> thr \<longrightarrow>
              (\<forall>b. b \<in> set ts \<longleftrightarrow>
                 float_less (round64 thr) (float_div (length (filter (\<lambda>r. dst_ip r = b) rs)) time_span))"
  proof (intro impI allI)
    fix b
    assume "0 \<le> thr"
    then have "b \<notin> dst_ip ` set rs \<Longrightarrow>
        \<not> float_less (round64 thr) (float_div (length (filter (\<lambda>r. dst_ip r = b) rs)) time_span)"
      by (rule no_records_no_rate[rotated])
    then show "b \<in> set ts \<longleftrightarrow>
        float_less (round64 thr) (float_div (length (filter (\<lambda>r. dst_ip r = b) rs)) time_span)"
      using mem[rule_format, of b] by argo
  qed
  show "\<exists>ts. detect_ddos thr (pd_DataFrame security_keys rs) = Inr ts \<and>
           (\<forall>b. b \<in> set ts \<longleftrightarrow>
              b \<in> dst_ip ` set rs \<and>
              float_less (round64 thr) (float_div (length (filter (\<lambda>r. dst_ip r = b) rs)) time_span)) \<and>
           (0 \<le> thr \<longrightarrow>
              (\<forall>b. b \<in> set ts \<longleftrightarrow>
                 float_less (round64 thr) (float_div (length (filter (\<lambda>r. dst_ip r = b) rs)) time_span)))"
    by (rule exI[of _ ts]) (intro conjI eq mem nonneg)
qed

text \<open>The definitions to unfold when float64 arithmetic is evaluated.\<close>

lemmas float_eval = round64_def floor_log2_def pow2_def round_half_even_def float_sub_def
  float_div_def Let_def

text \<open>
  The theorem at records over two seconds, at records of one instant, and at the
  thirteen records over the float64 nearest to 0.013 seconds: the exact quotient is
  above 1000, the float64 quotient is 1000.0, and nothing is flagged.
\<close>

theorem detect_ddos_rate_witness:
  "flood_rows \<noteq> [] \<and>
   Finite 2 = float_sub (Max (time ` set flood_rows)) (Min (time ` set flood_rows)) \<and>
   Finite 2 \<noteq> Finite 0 \<and> (0::real) \<le> 1 \<and>
   detect_ddos 1 (pd_DataFrame security_keys flood_rows) = Inr [''10.0.0.9''] \<and>
   (\<forall>b. b \<in> set [''10.0.0.9''] \<longleftrightarrow>
      float_less (round64 1) (float_div (length (filter (\<lambda>r. dst_ip r = b) flood_rows)) (Finite 2))) \<and>
   instant_rows \<noteq> [] \<and>
   Finite 0 = float_sub (Max (time ` set instant_rows)) (Min (time ` set instant_rows)) \<and>
   detect_ddos 1 (pd_DataFrame security_keys instant_rows) = Inr [] \<and>
   burst_rows \<noteq> [] \<and>
   Finite (7493989779944505 / 576460752303423488) =
     float_sub (Max (time ` set burst_rows)) (Min (time ` set burst_rows)) \<and>
   (1000::real) < 13 / (7493989779944505 / 576460752303423488) \<and>
   float_div 13 (Finite (7493989779944505 / 576460752303423488)) = Finite 1000 \<and>
   detect_ddos 1000 (pd_DataFrame security_keys burst_rows) = Inr []"
proof -
  have ne: "flood_rows \<noteq> []" and ne0: "instant_rows \<noteq> []" and ne1: "burst_rows \<noteq> []"
    by (simp_all add: flood_rows_def instant_rows_def burst_rows_def)
  have sp: "Finite 2 = float_sub (Max (time ` set flood_rows)) (Min (time ` set flood_rows))"
    by (simp add: flood_rows_def flood_record_def float_eval)
  have sp0: "Finite 0 = float_sub (Max (time ` set instant_rows)) (Min (time ` set instant_rows))"
    by (simp add: instant_rows_def flood_record_def float_eval)
  have sp1: "Finite (7493989779944505 / 576460752303423488) =
     float_sub (Max (time ` set burst_rows)) (Min (time ` set burst_rows))"
    by (simp add: burst_rows_def flood_record_def float_eval)
  have ev: "detect_ddos 1 (pd_DataFrame security_keys flood_rows) = Inr [''10.0.0.9'']"
    by (simp add: detect_ddos_def pd_DataFrame_def security_keys_def groupby_size_def
        flood_rows_def flood_record_def float_eval)
  have nz: "Finite 2 \<noteq> Finite 0" and le: "(0::real) \<le> 1" by simp_all
  from detect_ddos_rate[OF ne sp, of 1, THEN conjunct2, THEN mp, OF nz]
  obtain ts where ts: "detect_ddos 1 (pd_DataFrame security_keys flood_rows) = Inr ts \<and>
       (\<forall>b. b \<in> set ts \<longleftrightarrow>
          b \<in> dst_ip ` set flood_rows \<and>
          float_less (round64 1) (float_div (length (filter (\<lambda>r. dst_ip r = b) flood_rows)) (Finite 2))) \<and>
       ((0::real) \<le> 1 \<longrightarrow>
          (\<forall>b. b \<in> set ts \<longleftrightarrow>
             float_less (round64 1) (float_div (length (filter (\<lambda>r. dst_ip r = b) flood_rows)) (Finite 2))))" ..
  from ts have ts1: "detect_ddos 1 (pd_DataFrame security_keys flood_rows) = Inr ts"
    by (rule conjunct1)
  from ts have "(0::real) \<le> 1 \<longrightarrow>
          (\<forall>b. b \<in> set ts \<longleftrightarrow>
             float_less (round64 1) (float_div (length (filter (\<lambda>r. dst_ip r = b) flood_rows)) (Finite 2)))"
    by (rule conjunct2[THEN conjunct2])
  then have iff: "\<forall>b. b \<in> set ts \<longleftrightarrow>
      float_less (round64 1) (float_div (length (filter (\<lambda>r. dst_ip r = b) flood_rows)) (Finite 2))"
    using le by (rule mp)
  from ts1 ev have "ts = [''10.0.0.9'']" by simp
  from iff have a: "\<forall>b. b \<in> set [''10.0.0.9''] \<longleftrightarrow>
      float_less (round64 1) (float_div (length (filter (\<lambda>r. dst_ip r = b) flood_rows)) (Finite 2))"
    unfolding \<open>ts = [''10.0.0.9'']\<close> .
  have z: "detect_ddos 1 (pd_DataFrame security_keys instant_rows) = Inr []"
    by (rule detect_ddos_rate[OF ne0 sp0, of 1, THEN conjunct1, THEN mp, OF refl])
  have ex: "(1000::real) < 13 / (7493989779944505 / 576460752303423488)" by simp
  have fl: "float_div 13 (Finite (7493989779944505 / 576460752303423488)) = Finite 1000"
    by (simp add: float_eval)
  have nz1: "Finite (7493989779944505 / 576460752303423488) \<noteq> Finite 0" by simp
  from detect_ddos_rate[OF ne1 sp1, of 1000, THEN conjunct2, THEN mp, OF nz1]
  obtain us where us: "detect_ddos 1000 (pd_DataFrame security_keys burst_rows) = Inr us \<and>
       (\<forall>b. b \<in> set us \<longleftrightarrow>
          b \<in> dst_ip ` set burst_rows \<and>
          float_less (round64 1000) (float_div (length (filter (\<lambda>r. dst_ip r = b) burst_rows))
             (Finite (7493989779944505 / 576460752303423488)))) \<and>
       ((0::real) \<le> 1000 \<longrightarrow>
          (\<forall>b. b \<in> set us \<longleftrightarrow>
             float_less (round64 1000) (float_div (length (filter (\<lambda>r. dst_ip r = b) burst_rows))
               (Finite (7493989779944505 / 576460752303423488)))))" ..
  have cnt: "length (filter (\<lambda>r. dst_ip r = b) burst_rows) = (if b = ''10.0.0.9'' then 13 else 0)" for b
    by (simp add: burst_rows_def flood_record_def)
  have r1000: "round64 1000 = Finite 1000" by (simp add: float_eval)
  have "b \<notin> set us" for b
  proof -
    have "\<not> float_less (round64 1000) (float_div (length (filter (\<lambda>r. dst_ip r = b) burst_rows))
             (Finite (7493989779944505 / 576460752303423488)))"
      unfolding cnt r1000 by (simp add: fl) (simp add: float_eval)
    with us show ?thesis by simp
  qed
  then have "us = []" by (cases us) auto
  with us have b: "detect_ddos 1000 (pd_DataFrame security_keys burst_rows) = Inr []" by simp
  show ?thesis by (intro conjI ne ne0 ne1 sp sp0 sp1 ev a z nz le ex fl b)
qed

lemma detect_ddos_perm:
  assumes "mset ss' = mset ss"
  shows "detect_ddos rate (pd_DataFrame security_keys ss') =
         detect_ddos rate (pd_DataFrame security_keys ss)"
proof (cases "ss = []")
  case True
  with assms have "ss' = []" by simp
  with True show ?thesis by simp
next
  case False
  with assms have ne: "ss' \<noteq> []" using perm_Nil_iff by blast
  have s: "set ss' = set ss" using assms by (rule mset_eq_setD)
  show ?thesis
    unfolding detect_ddos_eq[OF False] detect_ddos_eq[OF ne] groupby_size_perm[OF assms] s ..
qed

text \<open>
  C8. When the general-traffic records are permuted, the protocol counts, the host-pair
  table, the per-protocol host-pair table and the flow counts of \<open>analyze_packet_data\<close>
  are the same mappings from group key to row; when the security records are permuted,
  port-scan detection and flood detection return the same result, and so flag the same
  addresses.
\<close>

theorem order_independence:
  assumes "mset rs' = mset rs" and "mset ss' = mset ss"
  shows "map_sum id as_mappings (analyze_packet_data pm (pd_DataFrame general_keys rs')) =
         map_sum id as_mappings (analyze_packet_data pm (pd_DataFrame general_keys rs)) \<and>
         detect_port_scanning thr (pd_DataFrame security_keys ss') =
         detect_port_scanning thr (pd_DataFrame security_keys ss) \<and>
         detect_ddos rate (pd_DataFrame security_keys ss') =
         detect_ddos rate (pd_DataFrame security_keys ss)"
  by (intro conjI analyze_packet_data_perm[OF assms(1)] detect_port_scanning_perm[OF assms(2)]
      detect_ddos_perm[OF assms(2)])

theorem order_independence_witness:
  "mset general_rows_permuted = mset general_rows \<and> mset flood_rows_permuted = mset flood_rows \<and>
   map_sum id as_mappings (analyze_packet_data protocol_dict (pd_DataFrame general_keys general_rows_permuted)) =
   map_sum id as_mappings (analyze_packet_data protocol_dict (pd_DataFrame general_keys general_rows)) \<and>
   detect_port_scanning 100 (pd_DataFrame security_keys flood_rows_permuted) =
   detect_port_scanning 100 (pd_DataFrame security_keys flood_rows) \<and>
   detect_ddos 1 (pd_DataFrame security_keys flood_rows_permuted) = Inr [''10.0.0.9''] \<and>
   detect_ddos 1 (pd_DataFrame security_keys flood_rows) = Inr [''10.0.0.9'']"
proof -
  have g: "mset general_rows_permuted = mset general_rows"
    by (simp add: general_rows_permuted_def general_rows_def)
  have f: "mset flood_rows_permuted = mset flood_rows"
    by (simp add: flood_rows_permuted_def flood_rows_def)
  note t = order_independence[OF g f, of protocol_dict 100 1]
  have ev: "detect_ddos 1 (pd_DataFrame security_keys flood_rows) = Inr [''10.0.0.9'']"
    by (simp add: detect_ddos_def pd_DataFrame_def security_keys_def groupby_size_def
        flood_rows_def flood_record_def float_eval)
  from t have d: "detect_ddos 1 (pd_DataFrame security_keys flood_rows_permuted) =
      detect_ddos 1 (pd_DataFrame security_keys flood_rows)"
    by (rule conjunct2[THEN conjunct2])
  show ?thesis
    by (intro conjI g f t[THEN conjunct1] t[THEN conjunct2, THEN conjunct1] d[THEN trans, OF ev] ev)
qed

section \<open>The heuristics and empty security records\<close>

lemma process_packet_None_iff:
  "process_packet p = None \<longleftrightarrow>
     (case IP p of None \<Rightarrow> True | Some h \<Rightarrow> \<not> (is_valid_ip (src h) \<and> is_valid_ip (dst h)))"
  by (simp add: process_packet_def split: option.splits)

lemma security_rows_Nil_iff:
  "rows (extract_security_data ps) = [] \<longleftrightarrow> (\<forall>p \<in> set ps. process_packet p = None)"
proof (induction ps)
  case Nil
  show ?case by (simp add: rows_extract_security_data)
next
  case (Cons p ps)
  have "rows (extract_security_data (p # ps)) =
      rows (extract_security_data [p]) @ rows (extract_security_data ps)"
    using security_rows_append[of "[p]" ps] by simp
  moreover have "rows (extract_security_data [p]) = [] \<longleftrightarrow> process_packet p = None"
    by (auto simp: rows_extract_security_data process_packet_None_iff split: option.splits)
  ultimately show ?case using Cons.IH by simp
qed

lemma detect_port_scanning_returns:
  assumes "rs \<noteq> []"
  shows "\<exists>t. detect_port_scanning thr (pd_DataFrame security_keys rs) = Inr t"
  unfolding detect_port_scanning_eq[OF assms] by (rule exI) (rule refl)

lemma detect_ddos_returns:
  assumes "rs \<noteq> []"
  shows "\<exists>t. detect_ddos rate (pd_DataFrame security_keys rs) = Inr t"
  unfolding detect_ddos_eq[OF assms] by simp

lemma analyze_packet_data_returns:
  assumes "rs \<noteq> []"
  shows "\<exists>a. analyze_packet_data pm (pd_DataFrame general_keys rs) = Inr a"
  using analyze_protocols_eq[OF assms, of pm] by (elim exE conjE) (rule exI)

lemma extract_packet_data_cases:
  "extract_packet_data ps = ([NoValidIPPackets], Inl (SystemExit 1)) \<or>
   (\<exists>rs. rs \<noteq> [] \<and> extract_packet_data ps = ([], Inr (pd_DataFrame general_keys rs)))"
proof (cases "concat (map (\<lambda>r. case r of None \<Rightarrow> [] | Some x \<Rightarrow> [x]) (map process_packet ps)) = []")
  case True
  then show ?thesis
    by (simp add: extract_packet_data_def pd_DataFrame_def empty_df_def)
next
  case False
  then have "extract_packet_data ps = ([], Inr (pd_DataFrame general_keys
      (concat (map (\<lambda>r. case r of None \<Rightarrow> [] | Some x \<Rightarrow> [x]) (map process_packet ps)))))"
    by (simp add: extract_packet_data_def pd_DataFrame_def empty_df_def general_keys_def Let_def)
  with False show ?thesis by blast
qed

lemma run_Capture:
  assumes "ps \<noteq> []" and "extract_packet_data ps = ([], Inr df)"
    and "analyze_packet_data pm df = Inr a"
    and "detect_port_scanning thr (extract_security_data ps) = Inr s"
    and "detect_ddos 1000 (extract_security_data ps) = Inr t"
  shows "run f pm thr (Capture ps) = ([], Inr \<lparr>aggregation = a, scanners = s, ddos_targets = t\<rparr>)"
  using assms by (simp add: run_def read_pcap_def)

lemma run_outcome:
  "(\<exists>l. run f pm thr cap = (l, Inl (SystemExit 1))) \<or>
   (\<exists>ps a s t. cap = Capture ps \<and> rows (extract_security_data ps) \<noteq> [] \<and>
      detect_port_scanning thr (extract_security_data ps) = Inr s \<and>
      detect_ddos 1000 (extract_security_data ps) = Inr t \<and>
      run f pm thr cap = ([], Inr \<lparr>aggregation = a, scanners = s, ddos_targets = t\<rparr>))"
proof (cases cap)
  case Missing
  then show ?thesis by (simp add: run_def read_pcap_def)
next
  case (Unreadable e)
  then show ?thesis by (simp add: run_def read_pcap_def)
next
  case (Capture ps)
  show ?thesis
  proof (cases "ps = []")
    case True
    with Capture show ?thesis by (simp add: run_def read_pcap_def)
  next
    case False
    from extract_packet_data_cases[of ps] show ?thesis
    proof
      assume e: "extract_packet_data ps = ([NoValidIPPackets], Inl (SystemExit 1))"
      with Capture False show ?thesis by (simp add: run_def read_pcap_def)
    next
      assume "\<exists>rs. rs \<noteq> [] \<and> extract_packet_data ps = ([], Inr (pd_DataFrame general_keys rs))"
      then obtain rs where rs: "rs \<noteq> []"
        and e: "extract_packet_data ps = ([], Inr (pd_DataFrame general_keys rs))" by blast
      from e have "\<exists>p \<in> set ps. process_packet p \<noteq> None" by (rule extract_packet_data_Inr)
      then have sec: "rows (extract_security_data ps) \<noteq> []"
        unfolding security_rows_Nil_iff by simp
      have df: "extract_security_data ps = pd_DataFrame security_keys (rows (extract_security_data ps))"
        by (simp add: extract_security_data_def pd_DataFrame_def)
      from analyze_packet_data_returns[OF rs, of pm] obtain a
        where a: "analyze_packet_data pm (pd_DataFrame general_keys rs) = Inr a" ..
      from detect_port_scanning_returns[OF sec, of thr] df obtain s
        where s: "detect_port_scanning thr (extract_security_data ps) = Inr s" by auto
      from detect_ddos_returns[OF sec, of 1000] df obtain t
        where t: "detect_ddos 1000 (extract_security_data ps) = Inr t" by auto
      from run_Capture[OF False e a s t, of f] Capture sec s t show ?thesis by blast
    qed
  qed
qed

text \<open>
  C5 (as amended). The two extractions apply the same test, so the set of security
  records is empty exactly when no packet gives a general-traffic record. A run on a
  capture without security records ends with \<^verbatim>\<open>SystemExit(1)\<close>, in \<open>read_pcap\<close> or in
  \<open>extract_packet_data\<close>, before a heuristic is called. A run either ends with
  \<^verbatim>\<open>SystemExit(1)\<close> or its security records are not empty, both heuristics have run to
  completion and the run returns what they returned; on a non-empty set of security
  records both heuristics return a result.
\<close>

theorem heuristics_need_security_records:
  "(rows (extract_security_data ps) = [] \<longleftrightarrow> (\<forall>p \<in> set ps. process_packet p = None)) \<and>
   (rows (extract_security_data ps) = [] \<longrightarrow>
      (\<exists>l. run f pm thr (Capture ps) = (l, Inl (SystemExit 1)))) \<and>
   ((\<exists>l. run f pm thr cap = (l, Inl (SystemExit 1))) \<or>
    (\<exists>qs a s t. cap = Capture qs \<and> rows (extract_security_data qs) \<noteq> [] \<and>
       detect_port_scanning thr (extract_security_data qs) = Inr s \<and>
       detect_ddos 1000 (extract_security_data qs) = Inr t \<and>
       run f pm thr cap = ([], Inr \<lparr>aggregation = a, scanners = s, ddos_targets = t\<rparr>))) \<and>
   (rs \<noteq> [] \<longrightarrow>
      (\<exists>s. detect_port_scanning thr (pd_DataFrame security_keys rs) = Inr s) \<and>
      (\<exists>t. detect_ddos rate (pd_DataFrame security_keys rs) = Inr t))"
proof (intro conjI impI)
  show "rows (extract_security_data ps) = [] \<longleftrightarrow> (\<forall>p \<in> set ps. process_packet p = None)"
    by (rule security_rows_Nil_iff)
next
  assume e: "rows (extract_security_data ps) = []"
  from run_outcome[of f pm thr "Capture ps"]
  show "\<exists>l. run f pm thr (Capture ps) = (l, Inl (SystemExit 1))"
  proof
    assume "\<exists>l. run f pm thr (Capture ps) = (l, Inl (SystemExit 1))"
    then show ?thesis .
  next
    assume "\<exists>qs a s t. Capture ps = Capture qs \<and> rows (extract_security_data qs) \<noteq> [] \<and>
      detect_port_scanning thr (extract_security_data qs) = Inr s \<and>
      detect_ddos 1000 (extract_security_data qs) = Inr t \<and>
      run f pm thr (Capture ps) = ([], Inr \<lparr>aggregation = a, scanners = s, ddos_targets = t\<rparr>)"
    then obtain qs where "Capture ps = Capture qs" "rows (extract_security_data qs) \<noteq> []" by blast
    with e show ?thesis by simp
  qed
next
  show "(\<exists>l. run f pm thr cap = (l, Inl (SystemExit 1))) \<or>
    (\<exists>qs a s t. cap = Capture qs \<and> rows (extract_security_data qs) \<noteq> [] \<and>
       detect_port_scanning thr (extract_security_data qs) = Inr s \<and>
       detect_ddos 1000 (extract_security_data qs) = Inr t \<and>
       run f pm thr cap = ([], Inr \<lparr>aggregation = a, scanners = s, ddos_targets = t\<rparr>))"
    by (rule run_outcome)
next
  assume "rs \<noteq> []"
  then show "\<exists>s. detect_port_scanning thr (pd_DataFrame security_keys rs) = Inr s"
    by (rule detect_port_scanning_returns)
next
  assume "rs \<noteq> []"
  then show "\<exists>t. detect_ddos rate (pd_DataFrame security_keys rs) = Inr t"
    by (rule detect_ddos_returns)
qed

text \<open>
  The theorem at the capture with one ARP frame, which has no security record, and at
  the five SYN records.
\<close>

theorem heuristics_need_security_records_witness:
  "rows (extract_security_data [arp_packet]) = [] \<and> process_packet arp_packet = None \<and>
   run ''one.pcap'' protocol_dict 100 (Capture [arp_packet]) = ([NoValidIPPackets], Inl (SystemExit 1)) \<and>
   scan_rows \<noteq> [] \<and>
   (\<exists>s. detect_port_scanning 100 (pd_DataFrame security_keys scan_rows) = Inr s) \<and>
   (\<exists>t. detect_ddos 1000 (pd_DataFrame security_keys scan_rows) = Inr t)"
proof -
  note t = heuristics_need_security_records[of "[arp_packet]" "''one.pcap''" protocol_dict 100
      "Capture [arp_packet]" scan_rows 1000]
  have e: "rows (extract_security_data [arp_packet]) = []"
    by (simp add: extract_security_data_def pd_DataFrame_def arp_packet_def)
  from t[THEN conjunct1] e have n: "process_packet arp_packet = None" by simp
  from t[THEN conjunct2, THEN conjunct1, THEN mp, OF e]
  obtain l where l: "run ''one.pcap'' protocol_dict 100 (Capture [arp_packet]) = (l, Inl (SystemExit 1))" ..
  have "fst (run ''one.pcap'' protocol_dict 100 (Capture [arp_packet])) = [NoValidIPPackets]"
    by (simp add: run_def read_pcap_def extract_packet_data_def n pd_DataFrame_def empty_df_def)
  with l have r: "run ''one.pcap'' protocol_dict 100 (Capture [arp_packet]) =
      ([NoValidIPPackets], Inl (SystemExit 1))"
    by simp
  have ne: "scan_rows \<noteq> []" by (simp add: scan_rows_def)
  note d = t[THEN conjunct2, THEN conjunct2, THEN conjunct2, THEN mp, OF ne]
  show ?thesis
    by (intro conjI e n r ne d[THEN conjunct1] d[THEN conjunct2])
qed

text \<open>
  C5 as it is stated: the capture with one ARP frame has no security record, and the
  run does not return empty results of the heuristics; it ends with \<^verbatim>\<open>SystemExit(1)\<close>.
\<close>

theorem heuristics_need_security_records_counterexample:
  "rows (extract_security_data [arp_packet]) = [] \<and>
   run ''one.pcap'' protocol_dict 100 (Capture [arp_packet]) = ([NoValidIPPackets], Inl (SystemExit 1))"
  by (simp add: extract_security_data_def pd_DataFrame_def arp_packet_def
      run_def read_pcap_def extract_packet_data_def process_packet_def empty_df_def)

end
